theory Spec2Isabelle
  imports Main "HOL-Library.Sublist"
begin

section \<open>Python strings\<close>

text \<open>
  The repository is Python. Its strings are modelled as \<^typ>\<open>string\<close>, one
  \<^typ>\<open>char\<close> per code point, and read as ASCII text: the character classes below are
  the ASCII parts of Python's (\<open>str.isspace\<close>, \<open>str.isalnum\<close>, \<open>str.lower\<close>).
  An exception is a value of \<open>py_error\<close>; a function that can raise returns
  \<open>py_error + 'a\<close>, with \<open>Inl\<close> for the exception. A function keeps the name it has in
  the source, without the leading underscore of a private method.
\<close>

datatype py_error =
    IndexError
  | ValueError string
  | KeyError string
  | AttributeError
  | TypeError
  | ReError string
  | TransportError string

definition dquote :: char where "dquote = CHR 0x22"
definition squote :: char where "squote = CHR 0x27"
definition backslash :: char where "backslash = CHR 0x5C"
definition backtick :: char where "backtick = CHR 0x60"

definition in_range :: "char \<Rightarrow> char \<Rightarrow> char \<Rightarrow> bool" where
  "in_range lo hi c = ((of_char lo :: nat) \<le> of_char c \<and> (of_char c :: nat) \<le> of_char hi)"

definition is_space :: "char \<Rightarrow> bool" where
  \<comment> \<open>\<open>str.isspace\<close> on ASCII: tab, newline, VT, FF, CR, the separators 0x1C-0x1F, space\<close>
  "is_space c = (in_range (CHR 0x09) (CHR 0x0D) c \<or> in_range (CHR 0x1C) (CHR 0x20) c)"

definition is_digit :: "char \<Rightarrow> bool" where
  "is_digit c = in_range (CHR ''0'') (CHR ''9'') c"

definition is_upper :: "char \<Rightarrow> bool" where
  "is_upper c = in_range (CHR ''A'') (CHR ''Z'') c"

definition is_lower :: "char \<Rightarrow> bool" where
  "is_lower c = in_range (CHR ''a'') (CHR ''z'') c"

definition is_alnum :: "char \<Rightarrow> bool" where
  "is_alnum c = (is_digit c \<or> is_upper c \<or> is_lower c)"

definition lower_char :: "char \<Rightarrow> char" where
  "lower_char c = (if is_upper c then char_of (of_char c + (32::nat)) else c)"

definition py_lower :: "string \<Rightarrow> string" where
  "py_lower s = map lower_char s"

definition py_lstrip :: "string \<Rightarrow> string" where
  "py_lstrip s = dropWhile is_space s"

definition py_rstrip :: "string \<Rightarrow> string" where
  "py_rstrip s = rev (dropWhile is_space (rev s))"

definition py_strip :: "string \<Rightarrow> string" where
  "py_strip s = py_rstrip (py_lstrip s)"

definition py_isalnum :: "string \<Rightarrow> bool" where
  \<comment> \<open>\<open>str.isalnum\<close>: false on the empty string\<close>
  "py_isalnum s = (s \<noteq> [] \<and> list_all is_alnum s)"

definition startswith :: "string \<Rightarrow> string \<Rightarrow> bool" where
  "startswith s p = prefix p s"

definition endswith :: "string \<Rightarrow> string \<Rightarrow> bool" where
  "endswith s p = suffix p s"

fun py_contains :: "string \<Rightarrow> string \<Rightarrow> bool" where
  \<comment> \<open>\<open>sub in s\<close>\<close>
  "py_contains sub [] = (sub = [])"
| "py_contains sub (c # cs) = (prefix sub (c # cs) \<or> py_contains sub cs)"

fun split_on :: "char \<Rightarrow> string \<Rightarrow> string list" where
  \<comment> \<open>\<open>s.split(sep)\<close> for a separator of one character: never empty\<close>
  "split_on sep [] = [[]]"
| "split_on sep (c # cs) =
     (let r = split_on sep cs in if c = sep then [] # r else (c # hd r) # tl r)"

fun ws_words :: "string \<Rightarrow> string \<Rightarrow> string list" where
  \<comment> \<open>the words of \<open>s.split()\<close>, the word being read carried along\<close>
  "ws_words cur [] = (if cur = [] then [] else [cur])"
| "ws_words cur (c # cs) =
     (if is_space c then (if cur = [] then ws_words [] cs else cur # ws_words [] cs)
      else ws_words (cur @ [c]) cs)"

definition split_ws :: "string \<Rightarrow> string list" where
  \<comment> \<open>\<open>s.split()\<close>: split at runs of whitespace, no empty words\<close>
  "split_ws s = ws_words [] s"

definition py_slice :: "string \<Rightarrow> nat \<Rightarrow> nat \<Rightarrow> string" where
  \<comment> \<open>\<open>s[i:j]\<close> for indices that are not negative: empty when \<open>j \<le> i\<close>\<close>
  "py_slice s i j = take (j - i) (drop i s)"

fun digit_char :: "nat \<Rightarrow> char" where
  "digit_char n = char_of (of_char (CHR ''0'') + n)"

fun str_nat :: "nat \<Rightarrow> string" where
  "str_nat n = (if n < 10 then [digit_char n] else str_nat (n div 10) @ [digit_char (n mod 10)])"

definition str_int :: "int \<Rightarrow> string" where
  \<comment> \<open>\<open>str(i)\<close>\<close>
  "str_int i = (if i < 0 then CHR ''-'' # str_nat (nat (- i)) else str_nat (nat i))"

section \<open>The resilient executor: \<open>command_executor.py\<close>\<close>

subsection \<open>Shell-requirement classification\<close>

definition shell_keywords :: "string list" where
  "shell_keywords = [''for '', ''while '', ''if '', ''case '']"

definition shell_operators :: "string list" where
  "shell_operators = ['';'', ''&&'', ''||'', ''|'', ''>'', ''<'', [backtick]]"

definition first_word_after_last_dollar :: "string \<Rightarrow> py_error + string" where
  \<comment> \<open>\<open>command.split('$')[-1].split()[0]\<close>: IndexError when no word follows the last dollar\<close>
  "first_word_after_last_dollar command =
     (case split_ws (last (split_on (CHR ''$'') command)) of
        [] \<Rightarrow> Inl IndexError
      | w # _ \<Rightarrow> Inr w)"

definition looks_like_shell_script :: "string \<Rightarrow> string \<Rightarrow> py_error + bool" where
  \<comment> \<open>the first argument is what \<open>platform.system()\<close> returns\<close>
  "looks_like_shell_script system command =
     (let command_lower = py_strip (py_lower command) in
      if list_ex (startswith command_lower) shell_keywords then Inr True
      else if list_ex (\<lambda>op. py_contains op command) shell_operators then Inr True
      else
        (case (if py_contains ''$'' command
               then (if py_contains ''{'' command then Inr True
                     else map_sum id py_isalnum (first_word_after_last_dollar command))
               else Inr False) of
           Inl e \<Rightarrow> Inl e
         | Inr True \<Rightarrow> Inr True
         | Inr False \<Rightarrow>
             if py_contains ''%'' command \<and> system = ''Windows''
             then (let parts = split_on (CHR ''%'') command in
                   if length parts > 2 \<and> py_isalnum (parts ! 1) then Inr True else Inr False)
             else Inr False))"

subsection \<open>\<open>shlex.split\<close>\<close>

text \<open>
  \<open>shlex.split(s)\<close> is the library's lexer in POSIX mode with \<open>whitespace_split\<close> set and no
  comment characters. Its \<open>read_token\<close> is a state machine over the input: \<open>state\<close> is
  \<open>' '\<close> (between words), \<open>'a'\<close> (in a word), a quote character or the escape character;
  \<open>escapedstate\<close> is the state an escape returns to; \<open>quoted\<close> records that the word had a
  quoted part (so that \<open>''\<close> is a word). The function below runs the machine over the whole
  input and collects the words; \<open>Inl\<close> carries the message of the \<open>ValueError\<close>.
\<close>

datatype lex_state = SSpace | SWord | SQuote char | SEscape

definition shlex_whitespace :: "char \<Rightarrow> bool" where
  "shlex_whitespace c = (c \<in> set [CHR '' '', CHR 0x09, CHR 0x0D, CHR 0x0A])"

definition shlex_quotes :: "char \<Rightarrow> bool" where
  "shlex_quotes c = (c = squote \<or> c = dquote)"

definition emit :: "string \<Rightarrow> string + string list \<Rightarrow> string + string list" where
  "emit tok r = map_sum id ((#) tok) r"

fun shlex_loop :: "lex_state \<Rightarrow> lex_state \<Rightarrow> bool \<Rightarrow> string \<Rightarrow> string \<Rightarrow> string + string list" where
  "shlex_loop st es quoted tok [] =
     (case st of
        SQuote _ \<Rightarrow> Inl ''No closing quotation''
      | SEscape \<Rightarrow> Inl ''No escaped character''
      | _ \<Rightarrow> Inr (if tok \<noteq> [] \<or> quoted then [tok] else []))"
| "shlex_loop st es quoted tok (c # cs) =
     (case st of
        SSpace \<Rightarrow>
          if shlex_whitespace c then
            (if tok \<noteq> [] \<or> quoted then emit tok (shlex_loop SSpace SSpace False [] cs)
             else shlex_loop SSpace es quoted tok cs)
          else if c = backslash then shlex_loop SEscape SWord quoted tok cs
          else if shlex_quotes c then shlex_loop (SQuote c) es quoted tok cs
          else shlex_loop SWord es quoted [c] cs
      | SQuote qc \<Rightarrow>
          if c = qc then shlex_loop SWord es True tok cs
          else if c = backslash \<and> qc = dquote then shlex_loop SEscape (SQuote qc) True tok cs
          else shlex_loop (SQuote qc) es True (tok @ [c]) cs
      | SEscape \<Rightarrow>
          (case es of
             SQuote qc \<Rightarrow>
               shlex_loop es es quoted
                 ((if c \<noteq> backslash \<and> c \<noteq> qc then tok @ [backslash] else tok) @ [c]) cs
           | _ \<Rightarrow> shlex_loop es es quoted (tok @ [c]) cs)
      | SWord \<Rightarrow>
          if shlex_whitespace c then
            (if tok \<noteq> [] \<or> quoted then emit tok (shlex_loop SSpace SSpace False [] cs)
             else shlex_loop SSpace es quoted tok cs)
          else if shlex_quotes c then shlex_loop (SQuote c) es quoted tok cs
          else if c = backslash then shlex_loop SEscape SWord quoted tok cs
          else shlex_loop SWord es quoted (tok @ [c]) cs)"

definition shlex_split :: "string \<Rightarrow> string + string list" where
  "shlex_split s = shlex_loop SSpace SSpace False [] s"

subsection \<open>One attempt: \<open>run_command\<close>\<close>

text \<open>
  The process facility and the search path are outside the program. An environment gives
  what \<open>shutil.which\<close>, \<open>subprocess.run\<close> and \<open>platform.system\<close> return when they are
  called: \<open>subprocess.run\<close> either completes with a return code and the two captured
  streams, or raises; the handlers of \<open>run_command\<close> tell \<open>FileNotFoundError\<close>,
  \<open>ValueError\<close>, \<open>TimeoutExpired\<close> and any other \<open>Exception\<close> apart.
\<close>

datatype run_arg = ShellLine string | ArgVector "string list"

datatype proc_exception =
    FileNotFound string
  | ProcValueError string
  | TimeoutExpired
  | OtherException string

datatype proc_result = Completed int string string | Raised proc_exception

record environment =
  which :: "string \<Rightarrow> string option"
  subprocess_run :: "run_arg \<Rightarrow> proc_result"
  platform_system :: string

definition combine_output :: "string \<Rightarrow> string \<Rightarrow> string" where
  "combine_output out err =
     py_strip ((if out \<noteq> [] then ''Stdout:\<newline>'' @ py_strip out @ ''\<newline>'' else [])
             @ (if err \<noteq> [] then ''Stderr:\<newline>'' @ py_strip err else []))"

definition split_error_message :: "string \<Rightarrow> string \<Rightarrow> string" where
  "split_error_message e command =
     ''Error splitting command string (check quoting): '' @ e @ ''\<newline>Command: '' @ command"

definition run_process :: "environment \<Rightarrow> string \<Rightarrow> run_arg \<Rightarrow> string \<Rightarrow> bool \<times> string" where
  \<comment> \<open>the call of \<open>subprocess.run\<close> and what follows it, under the handlers\<close>
  "run_process env command command_to_run error_prefix =
     (case subprocess_run env command_to_run of
        Completed returncode out err \<Rightarrow>
          (let combined_output = combine_output out err in
           if returncode = 0 then (True, combined_output)
           else
             (let error_message = ''Command failed with exit code '' @ str_int returncode @ ''.'';
                  error_message = (if error_prefix \<noteq> [] then error_prefix @ ''\<newline>'' @ error_message
                                   else error_message)
              in (False, error_message @ ''\<newline>'' @ combined_output)))
      | Raised (FileNotFound e) \<Rightarrow>
          (False, ''Error: FileNotFoundError during command execution. Command or shell not found? Details: '' @ e)
      | Raised (ProcValueError e) \<Rightarrow> (False, split_error_message e command)
      | Raised TimeoutExpired \<Rightarrow>
          (False, ''Error: Command timed out after 300 seconds.\<newline>Command: '' @ command)
      | Raised (OtherException e) \<Rightarrow> (False, ''Subprocess execution error: '' @ e))"

definition run_command :: "environment \<Rightarrow> string \<Rightarrow> py_error + bool \<times> string" where
  "run_command env command =
     (case looks_like_shell_script (platform_system env) command of
        Inl e \<Rightarrow> Inl e
      | Inr use_shell \<Rightarrow>
          Inr (if use_shell then run_process env command (ShellLine command) []
               else
                 (case shlex_split command of
                    Inl e \<Rightarrow> (False, split_error_message e command)
                  | Inr [] \<Rightarrow> (False, ''Empty command after shlex.split'')
                  | Inr (exe # args) \<Rightarrow>
                      (let executable_path = which env exe;
                           error_prefix =
                             (if executable_path = None \<or> executable_path = Some []
                              then ''Error: Command executable '' @ [squote] @ exe @ [squote]
                                   @ '' not found in PATH.''
                              else [])
                       in run_process env command (ArgVector (exe # args)) error_prefix))))"

subsection \<open>The retry loop: \<open>execute_with_retries\<close>\<close>

text \<open>
  The loop calls \<open>run_command\<close> once per attempt and \<open>time.sleep\<close> between attempts. The
  environment may differ from one attempt to the next, so the loop takes the environment
  of each attempt, by its number (from 1). What the caller can observe is recorded: the
  value returned or the exception raised, the sleeps in order, and the number of attempts
  made.
\<close>

record execution =
  outcome :: "py_error + bool \<times> string"
  slept :: "nat list"
  attempts :: nat

definition no_retry_errors :: "string list" where
  "no_retry_errors =
     [''Error splitting command string'', ''executable not found'', ''FileNotFoundError'',
      ''no matches found'', ''timed out'']"

definition is_no_retry :: "string \<Rightarrow> bool" where
  "is_no_retry output = list_ex (\<lambda>err_text. py_contains err_text output) no_retry_errors"

function retry_loop ::
  "(nat \<Rightarrow> environment) \<Rightarrow> int \<Rightarrow> string \<Rightarrow> nat \<Rightarrow> string \<Rightarrow> nat list \<Rightarrow> execution" where
  "retry_loop envs max_exec_retries command attempt last_error_output sleeps =
     (if int attempt < max_exec_retries then
        (let attempt' = attempt + 1 in
         case run_command (envs attempt') command of
           Inl e \<Rightarrow> \<lparr>outcome = Inl e, slept = sleeps, attempts = attempt'\<rparr>
         | Inr (success, output) \<Rightarrow>
             if success then \<lparr>outcome = Inr (True, output), slept = sleeps, attempts = attempt'\<rparr>
             else if is_no_retry output
             then \<lparr>outcome = Inr (False, output), slept = sleeps, attempts = attempt'\<rparr>
             else if int attempt' < max_exec_retries
             then retry_loop envs max_exec_retries command attempt' output (sleeps @ [2 ^ attempt'])
             else retry_loop envs max_exec_retries command attempt' output sleeps)
      else \<lparr>outcome = Inr (False, last_error_output), slept = sleeps, attempts = attempt\<rparr>)"
  by pat_completeness auto
termination
  by (relation "measure (\<lambda>(envs, m, c, a, l, s). nat (m - int a))") auto

declare retry_loop.simps [simp del]

definition execute_with_retries :: "(nat \<Rightarrow> environment) \<Rightarrow> int \<Rightarrow> string \<Rightarrow> execution" where
  \<comment> \<open>the second argument is \<open>self.max_retries\<close>\<close>
  "execute_with_retries envs max_retries command =
     retry_loop envs max_retries command 0 ''No error output captured.'' []"

section \<open>The response sanitizer: \<open>clean_json_response\<close>\<close>

text \<open>
  The repository has two generators, each with its own \<open>clean_json_response\<close>: the
  context-aware one in \<open>app/command_generator.py\<close> (suffix \<open>_app\<close> below) and the minimal one
  in \<open>command_generator.py\<close> (suffix \<open>_min\<close>). Python is dynamically typed, so the argument
  is a value of any type; \<open>py_value\<close> has the types a caller can pass.

  Both functions first trim the string and remove a code fence, each in its own way
  (\<open>strip_markdown_app\<close>, \<open>strip_markdown_min\<close>), then run the same \<open>try\<close> block, which
  slices from the first opening brace to the last closing brace (\<open>json_span\<close>) and, when
  \<open>index\<close> or \<open>rindex\<close> raises \<open>ValueError\<close>, keeps the string as it is (\<open>or_unchanged\<close>).

  The context-aware function removes the fence with
  \<^verbatim>\<open>re.match(r"^\s*```(?:json)?\s*(.*)\s*```\s*$", s, re.DOTALL | re.IGNORECASE)\<close>.
  A match needs the opening fence after leading whitespace and a fence followed only by
  whitespace at the end; the greedy group then runs up to that last fence, so group 1 is
  the text between the opening fence (and the optional tag and whitespace after it) and
  the last fence. \<open>match_code_fence\<close> returns group 1, or \<open>None\<close> when there is no match.
\<close>

datatype py_value =
    PyNone
  | PyBool bool
  | PyInt int
  | PyStr string
  | PyBytes string
  | PyList "py_value list"
  | PyDict "(py_value \<times> py_value) list"

definition py_index :: "string \<Rightarrow> char \<Rightarrow> py_error + nat" where
  "py_index s c =
     (if c \<in> set s then Inr (length (takeWhile (\<lambda>x. x \<noteq> c) s))
      else Inl (ValueError ''substring not found''))"

definition py_rindex :: "string \<Rightarrow> char \<Rightarrow> py_error + nat" where
  "py_rindex s c =
     (if c \<in> set s then Inr (length s - 1 - length (takeWhile (\<lambda>x. x \<noteq> c) (rev s)))
      else Inl (ValueError ''substring not found''))"

fun py_join :: "string \<Rightarrow> string list \<Rightarrow> string" where
  "py_join sep [] = []"
| "py_join sep [x] = x"
| "py_join sep (x # y # ys) = x @ sep @ py_join sep (y # ys)"

definition py_strip_chars :: "string \<Rightarrow> string \<Rightarrow> string" where
  "py_strip_chars s chars =
     rev (dropWhile (\<lambda>c. c \<in> set chars) (rev (dropWhile (\<lambda>c. c \<in> set chars) s)))"

definition is_linebreak :: "char \<Rightarrow> bool" where
  "is_linebreak c = (in_range (CHR 0x0A) (CHR 0x0D) c \<or> in_range (CHR 0x1C) (CHR 0x1E) c)"

fun splitlines_from :: "string \<Rightarrow> string \<Rightarrow> string list" where
  "splitlines_from cur [] = (if cur = [] then [] else [cur])"
| "splitlines_from cur [c] = (if is_linebreak c then [cur] else [cur @ [c]])"
| "splitlines_from cur (c # d # cs) =
     (if c = CHR 0x0D \<and> d = CHR 0x0A then cur # splitlines_from [] cs
      else if is_linebreak c then cur # splitlines_from [] (d # cs)
      else splitlines_from (cur @ [c]) (d # cs))"

definition splitlines :: "string \<Rightarrow> string list" where
  "splitlines s = splitlines_from [] s"

definition fence :: string where
  "fence = [backtick, backtick, backtick]"

definition match_code_fence :: "string \<Rightarrow> string option" where
  "match_code_fence s =
     (let s1 = dropWhile is_space s in
      if \<not> prefix fence s1 then None
      else
        (let r = py_rstrip (drop 3 s1) in
         if \<not> suffix fence r then None
         else
           (let inner = take (length r - 3) r;
                inner = (if py_lower (take 4 inner) = ''json'' then drop 4 inner else inner)
            in Some (dropWhile is_space inner))))"

definition json_span :: "string \<Rightarrow> py_error + string" where
  "json_span response_str =
     (case py_index response_str (CHR ''{'') of
        Inl e \<Rightarrow> Inl e
      | Inr start \<Rightarrow>
          (case py_rindex response_str (CHR ''}'') of
             Inl e \<Rightarrow> Inl e
           | Inr last_brace \<Rightarrow> Inr (py_slice response_str start (last_brace + 1))))"

definition or_unchanged :: "string \<Rightarrow> py_error + string \<Rightarrow> py_error + string" where
  "or_unchanged response_str r =
     (case r of Inl (ValueError m) \<Rightarrow> Inr response_str | _ \<Rightarrow> r)"

definition strip_markdown_app :: "string \<Rightarrow> string" where
  "strip_markdown_app raw =
     (let response_str = py_strip raw in
      case match_code_fence response_str of
        Some group1 \<Rightarrow> py_strip group1
      | None \<Rightarrow> response_str)"

definition clean_json_response_app :: "py_value \<Rightarrow> py_error + string" where
  "clean_json_response_app v =
     (case v of
        PyStr raw \<Rightarrow>
          (let response_str = strip_markdown_app raw
           in or_unchanged response_str (json_span response_str))
      | _ \<Rightarrow> Inr [])"

definition strip_markdown_min :: "string \<Rightarrow> string" where
  "strip_markdown_min raw =
     (let response_str = py_strip raw in
      if startswith response_str fence \<and> endswith response_str fence then
        (let lines = splitlines response_str in
         if length lines \<ge> 3 then py_join ''\<newline>'' (butlast (tl lines))
         else py_strip_chars response_str fence)
      else response_str)"

definition clean_json_response_min :: "py_value \<Rightarrow> py_error + string" where
  "clean_json_response_min v =
     (case v of
        PyStr raw \<Rightarrow>
          (let response_str = strip_markdown_min raw
           in or_unchanged response_str (json_span response_str))
      | PyBytes b \<Rightarrow> Inl TypeError
      | _ \<Rightarrow> Inl AttributeError)"

section \<open>The context-aware generator: \<open>app/command_generator.py\<close>\<close>

text \<open>
  \<open>system_context\<close> is a dictionary whose keys may be missing: a record of options, \<open>None\<close>
  for a missing key. A message of the conversation is a dictionary with a role and,
  possibly, a content.

  The system prompt template is read from \<open>system_prompt.txt\<close>, which is not among the
  sources: it is a parameter, given as the pieces \<open>str.format\<close> sees, literal text and
  named placeholders. \<open>str.format\<close> raises \<open>KeyError\<close> at the first placeholder that is not
  among its keyword arguments. \<open>os.path.relpath\<close> and the model collaborator
  (\<open>openai.chat.completions.create\<close>, returning the content of the first choice or raising)
  are parameters too. What \<open>generate_command\<close> returns or raises is recorded together with
  the calls it made to the model.
\<close>

record system_context =
  os_info :: "string option"
  os_type :: "string option"
  shell :: "string option"
  ffmpeg_version :: "string option"
  ffmpeg_executable_path :: "string option"
  current_directory :: "string option"
  explicit_input_file :: "string option"
  detected_files_in_directory :: "string list option"
  file_context_message :: "string option"

record message =
  role :: string
  content :: "string option"

datatype template_piece = Literal string | Placeholder string

definition get_or :: "'a option \<Rightarrow> 'a \<Rightarrow> 'a" where
  \<comment> \<open>\<open>d.get(key, default)\<close>\<close>
  "get_or v dflt = (case v of Some x \<Rightarrow> x | None \<Rightarrow> dflt)"

definition in_quotes :: "string \<Rightarrow> string" where
  "in_quotes s = [squote] @ s @ [squote]"

definition prompt_path :: "(string \<Rightarrow> string \<Rightarrow> string option) \<Rightarrow> string \<Rightarrow> string \<Rightarrow> string" where
  \<comment> \<open>the body of the loop over \<open>detected_files\<close>; \<open>relpath\<close> returns \<open>None\<close> for \<open>ValueError\<close>\<close>
  "prompt_path relpath cwd f_abs =
     (case relpath f_abs cwd of
        Some rel_path \<Rightarrow>
          if length rel_path < length f_abs \<and> \<not> py_contains ''../'' (drop 3 rel_path)
          then rel_path else f_abs
      | None \<Rightarrow> f_abs)"

definition format_file_context ::
  "(string \<Rightarrow> string \<Rightarrow> string option) \<Rightarrow> system_context \<Rightarrow> string" where
  "format_file_context relpath ctx =
     (let explicit_file = get_or (explicit_input_file ctx) [];
          detected_files = get_or (detected_files_in_directory ctx) [];
          cwd = get_or (current_directory ctx) ''.'';
          summary_msg = get_or (file_context_message ctx) [];
          file_context_lines =
            [''\<newline>FILE CONTEXT:'']
            @ (if explicit_file \<noteq> []
               then [''- Explicit input file provided: '' @ in_quotes explicit_file
                     @ '' (Use this exact path)'']
               else [])
            @ (if detected_files \<noteq> []
               then [''- Media files found in directory '' @ in_quotes cwd @ '': ''
                     @ py_join '', '' (map (\<lambda>f. in_quotes (prompt_path relpath cwd f)) detected_files),
                     ''- Note: In the generated command, use full absolute paths for these files where necessary (e.g., ''
                     @ in_quotes (hd detected_files) @ '' ...).'']
               else [])
            @ (if summary_msg \<noteq> [] \<and> explicit_file = [] \<and> detected_files = []
               then [''- Additional context: '' @ summary_msg]
               else if explicit_file = [] \<and> detected_files = []
               then [''- No specific input file provided or common media files detected in the directory ''
                     @ in_quotes cwd @ ''.'']
               else [])
      in if length file_context_lines > 1 then py_join ''\<newline>'' file_context_lines else [])"

fun format_template :: "(string \<times> string) list \<Rightarrow> template_piece list \<Rightarrow> py_error + string" where
  "format_template kwargs [] = Inr []"
| "format_template kwargs (Literal s # ps) = map_sum id ((@) s) (format_template kwargs ps)"
| "format_template kwargs (Placeholder name # ps) =
     (case map_of kwargs name of
        None \<Rightarrow> Inl (KeyError name)
      | Some v \<Rightarrow> map_sum id ((@) v) (format_template kwargs ps))"

definition format_kwargs ::
  "(string \<Rightarrow> string \<Rightarrow> string option) \<Rightarrow> system_context \<Rightarrow> (string \<times> string) list" where
  "format_kwargs relpath ctx =
     [(''os_info'', get_or (os_info ctx) ''Unknown''),
      (''os_type'', get_or (os_type ctx) ''Unknown''),
      (''shell'', get_or (shell ctx) ''Unknown''),
      (''ffmpeg_version'', get_or (ffmpeg_version ctx) ''Unknown''),
      (''ffmpeg_executable_path'', get_or (ffmpeg_executable_path ctx) ''ffmpeg''),
      (''current_directory'', get_or (current_directory ctx) ''.''),
      (''file_context'', format_file_context relpath ctx)]"

definition prepare_llm_messages ::
  "(string \<Rightarrow> string \<Rightarrow> string option) \<Rightarrow> template_piece list \<Rightarrow> message list
     \<Rightarrow> system_context \<Rightarrow> py_error + message list" where
  "prepare_llm_messages relpath system_prompt_template conversation_history ctx =
     (case format_template (format_kwargs relpath ctx) system_prompt_template of
        Inl (KeyError k) \<Rightarrow>
          Inl (ValueError (''System context dictionary is missing required key: '' @ in_quotes k))
      | Inl e \<Rightarrow> Inl e
      | Inr formatted_system_prompt \<Rightarrow>
          Inr (\<lparr>role = ''system'', content = Some formatted_system_prompt\<rparr>
               # filter (\<lambda>msg. get_or (content msg) [] \<noteq> []) conversation_history))"

definition empty_content_reply :: string where
  "empty_content_reply =
     ''{'' @ [dquote] @ ''explanation'' @ [dquote] @ '': ['' @ [dquote]
     @ ''LLM returned empty content.'' @ [dquote] @ ''], '' @ [dquote] @ ''command'' @ [dquote]
     @ '': '' @ [dquote, dquote] @ ''}''"

definition call_llm_api ::
  "(message list \<Rightarrow> py_error + string option) \<Rightarrow> message list \<Rightarrow> py_error + string" where
  "call_llm_api llm messages =
     (case llm messages of
        Inl e \<Rightarrow> Inl e
      | Inr reply \<Rightarrow> if get_or reply [] = [] then Inr empty_content_reply else Inr (get_or reply []))"

record generation =
  returned :: "py_error + string"
  llm_calls :: "message list list"

definition generate_command ::
  "(string \<Rightarrow> string \<Rightarrow> string option) \<Rightarrow> template_piece list
     \<Rightarrow> (message list \<Rightarrow> py_error + string option) \<Rightarrow> message list \<Rightarrow> system_context \<Rightarrow> generation" where
  "generate_command relpath system_prompt_template llm conversation_history ctx =
     (case prepare_llm_messages relpath system_prompt_template conversation_history ctx of
        Inl e \<Rightarrow> \<lparr>returned = Inl e, llm_calls = []\<rparr>
      | Inr messages \<Rightarrow> \<lparr>returned = call_llm_api llm messages, llm_calls = [messages]\<rparr>)"

section \<open>The minimal generator: \<open>command_generator.py\<close>\<close>

text \<open>
  \<open>shlex.quote\<close> leaves a word of safe characters (\<open>[A-Za-z0-9_@%+=:,./-]\<close>) as it is and
  wraps any other in single quotes, a single quote inside it written \<open>'"'"'\<close>;
  \<open>shlex.join\<close> quotes each word and joins with spaces. Both functions below tokenise with
  \<open>shlex.split\<close> and fall back to \<open>str.split\<close> when it raises (\<open>tokenize\<close>).

  The loop of \<open>replace_placeholder_with_file\<close> walks the tokens with an index that it
  advances by 2 after an input designator and by 1 otherwise; \<open>replace_loop\<close> is that loop
  on the tokens from the index on, returning what it appends to \<open>new_tokens\<close>.

  \<open>os.path.splitext\<close> and \<open>os.path.basename\<close> are those of \<open>posixpath\<close>: the separator is
  \<open>/\<close>, and the extension starts at the last dot of the last component unless only dots
  come before it there. \<open>IMAGE_EXTENSIONS\<close> is imported from \<open>file_manager\<close>, which
  is not among the sources: it is a parameter. \<open>desired_ext\<close> defaults to \<open>None\<close>, and the
  test \<open>if desired_ext\<close> takes the empty string as \<open>None\<close>.
\<close>

definition shlex_safe :: "char \<Rightarrow> bool" where
  "shlex_safe c = (is_alnum c \<or> c \<in> set ''_@%+=:,./-'')"

definition quote_escape :: "char \<Rightarrow> string" where
  \<comment> \<open>\<open>s.replace("'", "'\"'\"'")\<close>, one character at a time\<close>
  "quote_escape c = (if c = squote then [squote, dquote, squote, dquote, squote] else [c])"

definition shlex_quote :: "string \<Rightarrow> string" where
  "shlex_quote s =
     (if s = [] then [squote, squote]
      else if list_all shlex_safe s then s
      else [squote] @ concat (map quote_escape s) @ [squote])"

definition shlex_join :: "string list \<Rightarrow> string" where
  "shlex_join split_command = py_join '' '' (map shlex_quote split_command)"

definition tokenize :: "string \<Rightarrow> string list" where
  "tokenize command = (case shlex_split command of Inr tokens \<Rightarrow> tokens | Inl e \<Rightarrow> split_ws command)"

definition is_input_designator :: "string \<Rightarrow> bool" where
  "is_input_designator token = (py_lower token = ''-i'')"

fun replace_loop :: "bool \<Rightarrow> string \<Rightarrow> string list \<Rightarrow> string list" where
  "replace_loop found_input actual_file [] = []"
| "replace_loop found_input actual_file [t] =
     (if is_input_designator t then (if \<not> found_input then [t] else []) else [t])"
| "replace_loop found_input actual_file (t # u # ts) =
     (if is_input_designator t then
        (if \<not> found_input then t # actual_file # replace_loop True actual_file ts
         else replace_loop found_input actual_file ts)
      else t # replace_loop found_input actual_file (u # ts))"

definition replace_placeholder_with_file :: "string \<Rightarrow> string \<Rightarrow> string" where
  "replace_placeholder_with_file command actual_file =
     shlex_join (replace_loop False actual_file (tokenize command))"

definition after_last :: "char \<Rightarrow> string \<Rightarrow> string" where
  "after_last c p = rev (takeWhile (\<lambda>x. x \<noteq> c) (rev p))"

definition upto_last :: "char \<Rightarrow> string \<Rightarrow> string" where
  "upto_last c p = rev (dropWhile (\<lambda>x. x \<noteq> c) (rev p))"

definition basename :: "string \<Rightarrow> string" where
  "basename p = after_last (CHR ''/'') p"

definition splitext :: "string \<Rightarrow> string \<times> string" where
  "splitext p =
     (let name = after_last (CHR ''/'') p in
      if CHR ''.'' \<in> set name \<and> (\<exists>c \<in> set (upto_last (CHR ''.'') name). c \<noteq> CHR ''.'')
      then (take (length p - Suc (length (after_last (CHR ''.'') name))) p,
            CHR ''.'' # after_last (CHR ''.'') name)
      else (p, []))"

definition update_output_filename ::
  "string set \<Rightarrow> string \<Rightarrow> string \<Rightarrow> string option \<Rightarrow> string" where
  "update_output_filename image_extensions command input_file desired_ext =
     (let tokens = tokenize command in
      if length tokens < 3 then command
      else
        (let output_token = last tokens;
             out_ext = snd (splitext output_token);
             in_ext = snd (splitext input_file);
             out_ext = (if desired_ext \<noteq> None \<and> desired_ext \<noteq> Some [] then the desired_ext
                        else if py_lower in_ext \<in> image_extensions then in_ext
                        else out_ext);
             base = fst (splitext (basename input_file));
             new_output = base @ ''_toasted'' @ out_ext
         in shlex_join (butlast tokens @ [new_output])))"

subsection \<open>Quote repair: \<open>fix_command_quotes\<close>\<close>

text \<open>
  \<open>fix_command_quotes\<close> works with two regular expressions. Both are deterministic, so each
  is modelled by the function that decides whether it matches at the start of a string
  and returns its groups and the text after the match.

  \<^item> \<^verbatim>\<open>(-vf\s+)(["\'])(.*?)\2\<close>: \<open>-vf\<close>, the whole run of whitespace after it (at least one
    character), a quote character, the characters up to the next occurrence of the same
    quote character, none of them a newline, and that quote character
    (\<open>match_vf_here\<close>). \<open>re.search\<close> takes the first position at which it matches
    (\<open>search_vf\<close>: the text before the match, and the groups and the text after it).
  \<^item> \<^verbatim>\<open>scale\s*=\s*min\(([^)]+)\)\<close> with \<open>re.IGNORECASE\<close>: the group is the run of
    characters up to the next closing parenthesis, at least one (\<open>match_scale_here\<close>).
    \<open>re.sub\<close> with a function replaces every match, scanning from the left
    (\<open>sub_scale\<close>).

  The second \<open>re.sub\<close> is given the new text as a replacement template, so the library
  processes the backslash escapes in it (\<open>expand_template\<close>, as \<open>re\<close> does from
  Python 3.7: \<open>\n\<close> and the like become the control character, \<open>\\\<close> a backslash, \<open>\0\<close>
  and three octal digits a character, \<open>\1\<close> to \<open>\99\<close> and \<open>\g<n>\<close> a group, a backslash
  before another ASCII letter is an error, and before any other character it is kept; a
  group name that is neither an identifier nor a run of digits is an error, as it is
  from Python 3.12). The pattern has three groups and none is named. The errors of \<open>re\<close>
  are \<open>ReError\<close>.
\<close>

definition newline :: char where "newline = CHR 0x0A"

definition match_vf_here :: "string \<Rightarrow> (string \<times> char \<times> string \<times> string) option" where
  "match_vf_here s =
     (if \<not> prefix ''-vf'' s then None
      else
        (let ws = takeWhile is_space (drop 3 s) in
         if ws = [] then None
         else
           (case dropWhile is_space (drop 3 s) of
              [] \<Rightarrow> None
            | q # v \<Rightarrow>
                if q \<noteq> dquote \<and> q \<noteq> squote then None
                else
                  (case dropWhile (\<lambda>c. c \<noteq> q \<and> c \<noteq> newline) v of
                     [] \<Rightarrow> None
                   | c # rest \<Rightarrow>
                       if c = q then Some (ws, q, takeWhile (\<lambda>c. c \<noteq> q \<and> c \<noteq> newline) v, rest)
                       else None))))"

fun search_vf :: "string \<Rightarrow> (string \<times> string \<times> char \<times> string \<times> string) option" where
  "search_vf [] = None"
| "search_vf (c # cs) =
     (case match_vf_here (c # cs) of
        Some m \<Rightarrow> Some ([], m)
      | None \<Rightarrow> map_option (\<lambda>(before, m). (c # before, m)) (search_vf cs))"

definition match_scale_here :: "string \<Rightarrow> (string \<times> string) option" where
  "match_scale_here s =
     (if py_lower (take 5 s) \<noteq> ''scale'' then None
      else
        (case dropWhile is_space (drop 5 s) of
           [] \<Rightarrow> None
         | e # u \<Rightarrow>
             if e \<noteq> CHR ''='' then None
             else
               (let v = dropWhile is_space u in
                if py_lower (take 3 v) \<noteq> ''min'' then None
                else
                  (case drop 3 v of
                     [] \<Rightarrow> None
                   | p # w \<Rightarrow>
                       if p \<noteq> CHR ''('' then None
                       else
                         (let inner = takeWhile (\<lambda>c. c \<noteq> CHR '')'') w in
                          case dropWhile (\<lambda>c. c \<noteq> CHR '')'') w of
                            [] \<Rightarrow> None
                          | close # rest \<Rightarrow> if inner = [] then None else Some (inner, rest))))))"

lemma match_scale_here_shorter:
  "match_scale_here s = Some (inner, rest) \<Longrightarrow> length rest < length s"
proof -
  assume m: "match_scale_here s = Some (inner, rest)"
  have d: "length (dropWhile P xs) \<le> length xs" for P and xs :: string
    by (rule length_dropWhile_le)
  from m obtain e u where eu: "dropWhile is_space (drop 5 s) = e # u"
    by (auto simp: match_scale_here_def split: if_splits list.splits)
  from m eu obtain p w where pw: "drop 3 (dropWhile is_space u) = p # w"
    by (auto simp: match_scale_here_def Let_def split: if_splits list.splits)
  from m eu pw obtain close where cl: "dropWhile (\<lambda>c. c \<noteq> CHR '')'') w = close # rest"
    by (auto simp: match_scale_here_def Let_def split: if_splits list.splits)
  have "length rest < length w" using d [of "\<lambda>c. c \<noteq> CHR '')''" w] cl by simp
  also have "length w < length (dropWhile is_space u)"
    using arg_cong [OF pw, of length] by simp
  also have "\<dots> \<le> length u" by (rule d)
  also have "length u < length (drop 5 s)" using d [of is_space "drop 5 s"] eu by simp
  also have "\<dots> \<le> length s" by simp
  finally show ?thesis .
qed

function sub_scale :: "string \<Rightarrow> string" where
  "sub_scale [] = []"
| "sub_scale (c # cs) =
     (case match_scale_here (c # cs) of
        Some (inner, rest) \<Rightarrow> ''scale='' @ [squote] @ ''min('' @ inner @ '')'' @ [squote] @ sub_scale rest
      | None \<Rightarrow> c # sub_scale cs)"
  by pat_completeness auto
termination
  by (relation "measure length") (auto dest: match_scale_here_shorter)

definition octal :: "char \<Rightarrow> bool" where
  "octal c = in_range (CHR ''0'') (CHR ''7'') c"

definition digit_value :: "char \<Rightarrow> nat" where
  "digit_value c = of_char c - of_char (CHR ''0'')"

definition is_ascii_letter :: "char \<Rightarrow> bool" where
  "is_ascii_letter c = (is_upper c \<or> is_lower c)"

definition is_identifier :: "string \<Rightarrow> bool" where
  "is_identifier name =
     (name \<noteq> [] \<and> \<not> is_digit (hd name) \<and> list_all (\<lambda>c. is_alnum c \<or> c = CHR ''_'') name)"

fun decimal_value :: "nat \<Rightarrow> string \<Rightarrow> nat" where
  "decimal_value acc [] = acc"
| "decimal_value acc (c # cs) = decimal_value (10 * acc + digit_value c) cs"

definition simple_escape :: "char \<Rightarrow> char option" where
  "simple_escape c =
     map_of [(CHR ''a'', CHR 0x07), (CHR ''b'', CHR 0x08), (CHR ''f'', CHR 0x0C),
             (CHR ''n'', CHR 0x0A), (CHR ''r'', CHR 0x0D), (CHR ''t'', CHR 0x09),
             (CHR ''v'', CHR 0x0B), (backslash, backslash)] c"

definition group_ref :: "string list \<Rightarrow> nat \<Rightarrow> py_error + string" where
  "group_ref groups index =
     (if index < length groups then Inr (groups ! index)
      else Inl (ReError (''invalid group reference '' @ str_nat index)))"

definition then_append :: "py_error + string \<Rightarrow> py_error + string \<Rightarrow> py_error + string" where
  "then_append a b =
     (case a of Inl e \<Rightarrow> Inl e | Inr x \<Rightarrow> (case b of Inl e \<Rightarrow> Inl e | Inr y \<Rightarrow> Inr (x @ y)))"

function expand_template :: "string list \<Rightarrow> string \<Rightarrow> py_error + string" where
  "expand_template groups [] = Inr []"
| "expand_template groups [c] =
     (if c = backslash then Inl (ReError ''bad escape (end of pattern)'') else Inr [c])"
| "expand_template groups (c # d # cs) =
     (if c \<noteq> backslash then then_append (Inr [c]) (expand_template groups (d # cs))
      else if d = CHR ''g'' then
        (if \<not> prefix ''<'' cs then Inl (ReError ''missing <'')
         else
           (let name = takeWhile (\<lambda>x. x \<noteq> CHR ''>'') (drop 1 cs);
                rest = drop 1 (dropWhile (\<lambda>x. x \<noteq> CHR ''>'') (drop 1 cs))
            in if CHR ''>'' \<notin> set (drop 1 cs) then Inl (ReError ''missing >, unterminated name'')
               else if name = [] then Inl (ReError ''missing group name'')
               else if is_identifier name then Inl IndexError
               else if \<not> list_all is_digit name then Inl (ReError ''bad character in group name'')
               else then_append (group_ref groups (decimal_value 0 name)) (expand_template groups rest)))
      else if d = CHR ''0'' then
        (if cs \<noteq> [] \<and> octal (hd cs) then
           (if tl cs \<noteq> [] \<and> octal (hd (tl cs))
            then then_append (Inr [char_of (8 * digit_value (hd cs) + digit_value (hd (tl cs)))])
                   (expand_template groups (drop 2 cs))
            else then_append (Inr [char_of (digit_value (hd cs))]) (expand_template groups (drop 1 cs)))
         else then_append (Inr [CHR 0x00]) (expand_template groups cs))
      else if is_digit d then
        (if cs \<noteq> [] \<and> is_digit (hd cs) then
           (if octal d \<and> octal (hd cs) \<and> tl cs \<noteq> [] \<and> octal (hd (tl cs)) then
              (let code = 64 * digit_value d + 8 * digit_value (hd cs) + digit_value (hd (tl cs))
               in if code > 255 then Inl (ReError ''octal escape value outside of range 0-0o377'')
                  else then_append (Inr [char_of code]) (expand_template groups (drop 2 cs)))
            else then_append (group_ref groups (10 * digit_value d + digit_value (hd cs)))
                   (expand_template groups (drop 1 cs)))
         else then_append (group_ref groups (digit_value d)) (expand_template groups cs))
      else
        (case simple_escape d of
           Some x \<Rightarrow> then_append (Inr [x]) (expand_template groups cs)
         | None \<Rightarrow>
             if is_ascii_letter d then Inl (ReError (''bad escape '' @ [backslash, d]))
             else then_append (Inr [backslash, d]) (expand_template groups cs)))"
  by pat_completeness auto
termination
proof (relation "measure (\<lambda>(g, s). length s)", goal_cases)
  case 1 show ?case by simp
next
  case (2 groups c d cs) then show ?case by simp
next
  case (3 groups c d cs name rest)
  have "length (dropWhile (\<lambda>x. x \<noteq> CHR ''>'') (drop 1 cs)) \<le> length (drop 1 cs)"
    by (rule length_dropWhile_le)
  with 3 show ?case by simp
qed simp_all

definition fix_command_quotes :: "string \<Rightarrow> py_error + string" where
  "fix_command_quotes command =
     (case search_vf command of
        None \<Rightarrow> Inr command
      | Some (before, ws, q, filters, after) \<Rightarrow>
          (let prefix = ''-vf'' @ ws;
               filters_fixed = filter (\<lambda>c. c \<noteq> dquote) (sub_scale filters);
               new_vf = prefix @ [dquote] @ filters_fixed @ [dquote]
           in case expand_template [prefix @ [q] @ filters @ [q], prefix, [q], filters] new_vf of
                Inl e \<Rightarrow> Inl e
              | Inr replacement \<Rightarrow> Inr (before @ replacement @ after)))"

section \<open>Example environments\<close>

text \<open>
  Three environments at which the theorems below are instantiated. In the first no
  executable is found and the launch raises \<open>FileNotFoundError\<close>; in the second no
  executable is found and the launch raises \<open>PermissionError\<close>; in the third the tool is
  found and every run exits with code 1, its error stream naming the attempt.
\<close>

definition missing_env :: environment where
  "missing_env =
     \<lparr>which = (\<lambda>exe. None),
      subprocess_run = (\<lambda>arg. Raised (FileNotFound ''[Errno 2] No such file or directory'')),
      platform_system = ''Linux''\<rparr>"

definition missing_envs :: "nat \<Rightarrow> environment" where
  "missing_envs attempt = missing_env"

definition denied_envs :: "nat \<Rightarrow> environment" where
  \<comment> \<open>the file is there but cannot be executed: the launch raises \<open>PermissionError\<close>\<close>
  "denied_envs attempt =
     \<lparr>which = (\<lambda>exe. None),
      subprocess_run = (\<lambda>arg. Raised (OtherException ''[Errno 13] Permission denied'')),
      platform_system = ''Linux''\<rparr>"

definition failing_envs :: "nat \<Rightarrow> environment" where
  "failing_envs attempt =
     \<lparr>which = (\<lambda>exe. Some (''/usr/bin/'' @ exe)),
      subprocess_run = (\<lambda>arg. Completed 1 [] (''failure '' @ str_nat attempt)),
      platform_system = ''Linux''\<rparr>"

definition failing_output :: "nat \<Rightarrow> string" where
  "failing_output attempt =
     ''Command failed with exit code 1.\<newline>Stderr:\<newline>failure '' @ str_nat attempt"

text \<open>
  A context with every key missing, a template with the seven placeholders of the
  specification, a conversation and a model that answers \<open>{}\<close>.
\<close>

definition empty_context :: system_context where
  "empty_context =
     \<lparr>os_info = None, os_type = None, shell = None, ffmpeg_version = None,
      ffmpeg_executable_path = None, current_directory = None, explicit_input_file = None,
      detected_files_in_directory = None, file_context_message = None\<rparr>"

definition example_template :: "template_piece list" where
  "example_template =
     [Literal ''OS: '', Placeholder ''os_info'', Literal '' ('', Placeholder ''os_type'',
      Literal ''), shell: '', Placeholder ''shell'', Literal '', ffmpeg '',
      Placeholder ''ffmpeg_version'', Literal '' at '', Placeholder ''ffmpeg_executable_path'',
      Literal '', cwd: '', Placeholder ''current_directory'', Placeholder ''file_context'']"

definition example_history :: "message list" where
  "example_history = [\<lparr>role = ''user'', content = Some ''make it smaller''\<rparr>]"

definition example_llm :: "message list \<Rightarrow> py_error + string option" where
  "example_llm messages = Inr (Some ''{}'')"

definition no_relpath :: "string \<Rightarrow> string \<Rightarrow> string option" where
  "no_relpath path start = None"

text \<open>
  Four commands: the one of the specification's end-to-end example; one with two quoted
  filter values, the second holding the \<open>scale=min(...)\<close>; one with a call inside the
  \<open>min(...)\<close>; one whose filter value holds a Windows path.
\<close>

definition spec_example_command :: string where
  "spec_example_command =
     ''ffmpeg -i input.mp4 -vf '' @ [dquote] @ ''scale=min(1280,iw):-2'' @ [dquote] @ '' out.mp4''"

definition two_filters_command :: string where
  "two_filters_command =
     ''ffmpeg -i in.mp4 -vf '' @ [squote] @ ''fps=10'' @ [squote] @ '' a.mp4 -vf ''
     @ [dquote] @ ''scale=min(1280,iw):-2'' @ [dquote] @ '' b.mp4''"

definition nested_parentheses_command :: string where
  "nested_parentheses_command =
     ''ffmpeg -i in.mp4 -vf '' @ [dquote] @ ''scale=min(1280,max(iw,2)):-2'' @ [dquote] @ '' out.mp4''"

definition windows_path_command :: string where
  "windows_path_command =
     ''ffmpeg -i in.mp4 -vf '' @ [dquote] @ ''scale=min(1280,iw):-2,subtitles=C:'' @ [backslash]
     @ ''Users'' @ [backslash] @ ''me'' @ [backslash] @ ''movie.srt'' @ [dquote] @ '' out.mp4''"

section \<open>Predicates of the specification\<close>

text \<open>
  The conditions under which the classifier asks for a shell, as positions in the command.
  The first two are common to the specification and the code.
\<close>

definition starts_with_keyword :: "string \<Rightarrow> bool" where
  "starts_with_keyword command =
     (\<exists>k \<in> set shell_keywords. prefix k (py_strip (py_lower command)))"

definition contains_operator :: "string \<Rightarrow> bool" where
  "contains_operator command =
     (\<exists>op \<in> set shell_operators. \<exists>a b. command = a @ op @ b)"

definition only_space_after_last_dollar :: "string \<Rightarrow> bool" where
  "only_space_after_last_dollar command =
     (\<exists>pre post. command = pre @ ''$'' @ post \<and> (\<forall>c \<in> set post. is_space c))"

definition word_after_last_dollar_alnum :: "string \<Rightarrow> bool" where
  "word_after_last_dollar_alnum command =
     (\<exists>pre sp w rest. command = pre @ ''$'' @ sp @ w @ rest \<and> CHR ''$'' \<notin> set (sp @ w @ rest)
        \<and> (\<forall>c \<in> set sp. is_space c) \<and> py_isalnum w \<and> (rest = [] \<or> is_space (hd rest)))"

definition percent_pair_alnum :: "string \<Rightarrow> bool" where
  "percent_pair_alnum command =
     (\<exists>a b r. command = a @ ''%'' @ b @ ''%'' @ r \<and> CHR ''%'' \<notin> set a \<and> CHR ''%'' \<notin> set b
        \<and> py_isalnum b)"

text \<open>
  The specification's two remaining conditions, in its words: a dollar sign "followed
  immediately by" an opening brace or an alphanumeric character, and a \<open>%name%\<close> token
  anywhere in the command.
\<close>

fun dollar_followed :: "string \<Rightarrow> bool" where
  "dollar_followed (a # b # cs) =
     ((a = CHR ''$'' \<and> (b = CHR ''{'' \<or> is_alnum b)) \<or> dollar_followed (b # cs))"
| "dollar_followed _ = False"

fun percent_name_token :: "string \<Rightarrow> bool" where
  "percent_name_token [] = False"
| "percent_name_token (c # cs) =
     ((c = CHR ''%'' \<and> takeWhile is_alnum cs \<noteq> [] \<and> prefix ''%'' (dropWhile is_alnum cs))
      \<or> percent_name_token cs)"

definition spec_requires_shell :: "string \<Rightarrow> string \<Rightarrow> bool" where
  "spec_requires_shell system command =
     (starts_with_keyword command \<or> contains_operator command \<or> dollar_followed command
      \<or> (system = ''Windows'' \<and> percent_name_token command))"

text \<open>
  The file name the specification gives the output:
  \<open>{input-basename-without-extension}_toasted{extension}\<close>, the extension being the desired
  one if given, else the input's if it is an image extension, else the output token's.
\<close>

definition new_output_name :: "string set \<Rightarrow> string \<Rightarrow> string \<Rightarrow> string option \<Rightarrow> string" where
  "new_output_name image_extensions output_token input_file desired_ext =
     fst (splitext (basename input_file)) @ ''_toasted''
     @ (if desired_ext \<noteq> None \<and> desired_ext \<noteq> Some [] then the desired_ext
        else if py_lower (snd (splitext input_file)) \<in> image_extensions then snd (splitext input_file)
        else snd (splitext output_token))"

text \<open>
  The keyword arguments \<open>_prepare_llm_messages\<close> passes to \<open>str.format\<close>, and the placeholders
  of a template.
\<close>

definition template_fields :: "string list" where
  "template_fields =
     [''os_info'', ''os_type'', ''shell'', ''ffmpeg_version'', ''ffmpeg_executable_path'',
      ''current_directory'', ''file_context'']"

fun placeholders :: "template_piece list \<Rightarrow> string list" where
  "placeholders [] = []"
| "placeholders (Literal s # ps) = placeholders ps"
| "placeholders (Placeholder name # ps) = name # placeholders ps"

text \<open>
  A quoted \<open>-vf\<close> argument of a command, by position: the text before it, the whitespace
  after \<open>-vf\<close>, the quote character, the value and the text after the closing quote.
\<close>

definition quoted_vf_at :: "string \<Rightarrow> string \<Rightarrow> string \<Rightarrow> char \<Rightarrow> string \<Rightarrow> string \<Rightarrow> bool" where
  "quoted_vf_at command before ws q filters after =
     (command = before @ ''-vf'' @ ws @ [q] @ filters @ [q] @ after
      \<and> ws \<noteq> [] \<and> (\<forall>c \<in> set ws. is_space c)
      \<and> (q = dquote \<or> q = squote)
      \<and> q \<notin> set filters \<and> newline \<notin> set filters)"

section \<open>Properties of the string functions\<close>

lemma py_contains_iff: "py_contains sub s \<longleftrightarrow> (\<exists>a b. s = a @ sub @ b)"
proof (induction s)
  case Nil then show ?case by simp
next
  case (Cons c cs)
  show ?case
  proof
    assume "py_contains sub (c # cs)"
    then consider "prefix sub (c # cs)" | "py_contains sub cs" by auto
    then show "\<exists>a b. c # cs = a @ sub @ b"
    proof cases
      case 1 then obtain b where "c # cs = sub @ b" by (auto simp: prefix_def)
      then have "c # cs = [] @ sub @ b" by simp
      then show ?thesis by blast
    next
      case 2 then obtain a b where "cs = a @ sub @ b" using Cons.IH by blast
      then have "c # cs = (c # a) @ sub @ b" by simp
      then show ?thesis by blast
    qed
  next
    assume "\<exists>a b. c # cs = a @ sub @ b"
    then obtain a b where ab: "c # cs = a @ sub @ b" by blast
    show "py_contains sub (c # cs)"
    proof (cases a)
      case Nil with ab have "prefix sub (c # cs)" by (simp add: prefix_def)
      then show ?thesis by simp
    next
      case (Cons x a') with ab have "cs = a' @ sub @ b" by simp
      then show ?thesis using Cons.IH by auto
    qed
  qed
qed

lemma py_contains_char: "py_contains [c] s \<longleftrightarrow> c \<in> set s"
  by (induction s) auto

lemma split_on_nonempty: "split_on sep s \<noteq> []"
  by (induction s) (auto simp: Let_def)

lemma split_on_absent: "sep \<notin> set s \<Longrightarrow> split_on sep s = [s]"
  by (induction s) (auto simp: Let_def)

lemma split_on_append: "split_on sep (a @ sep # b) = split_on sep a @ split_on sep b"
proof (induction a)
  case Nil then show ?case by simp
next
  case (Cons x a)
  have ne: "split_on sep a \<noteq> []" by (rule split_on_nonempty)
  show ?case using Cons ne by (cases "split_on sep a") (auto simp: Let_def)
qed

lemma split_on_last: "sep \<notin> set post \<Longrightarrow> last (split_on sep (pre @ sep # post)) = post"
  by (simp add: split_on_append split_on_absent)

lemma ws_words_spaces: "\<forall>c\<in>set sp. is_space c \<Longrightarrow> ws_words [] (sp @ s) = ws_words [] s"
  by (induction sp) auto

lemma ws_words_word: "\<forall>c\<in>set w. \<not> is_space c \<Longrightarrow> ws_words cur (w @ s) = ws_words (cur @ w) s"
  by (induction w arbitrary: cur) auto

lemma split_ws_empty_iff: "split_ws s = [] \<longleftrightarrow> (\<forall>c\<in>set s. is_space c)"
proof -
  have "ws_words cur s = [] \<longleftrightarrow> cur = [] \<and> (\<forall>c\<in>set s. is_space c)" for cur
    by (induction s arbitrary: cur) auto
  then show ?thesis by (simp add: split_ws_def)
qed

lemma split_ws_first:
  assumes "\<forall>c\<in>set sp. is_space c" and "w \<noteq> []" and "\<forall>c\<in>set w. \<not> is_space c"
      and "rest = [] \<or> is_space (hd rest)"
  shows "\<exists>ws. split_ws (sp @ w @ rest) = w # ws"
proof -
  have "split_ws (sp @ w @ rest) = ws_words w rest"
    using assms(1,3) by (simp add: split_ws_def ws_words_spaces ws_words_word)
  moreover have "\<exists>ws. ws_words w rest = w # ws"
    using assms(2,4) by (cases rest) auto
  ultimately show ?thesis by simp
qed

lemma split_ws_first_decomp:
  assumes "split_ws s = w # ws"
  shows "\<exists>sp rest. s = sp @ w @ rest \<and> (\<forall>c\<in>set sp. is_space c) \<and> w \<noteq> []
           \<and> (\<forall>c\<in>set w. \<not> is_space c) \<and> (rest = [] \<or> is_space (hd rest))"
proof -
  let ?sp = "takeWhile is_space s"
  let ?t = "dropWhile is_space s"
  let ?w = "takeWhile (\<lambda>c. \<not> is_space c) ?t"
  let ?rest = "dropWhile (\<lambda>c. \<not> is_space c) ?t"
  have s: "s = ?sp @ ?w @ ?rest" by simp
  have sp: "\<forall>c\<in>set ?sp. is_space c" by (auto dest: set_takeWhileD)
  have nw: "\<forall>c\<in>set ?w. \<not> is_space c" by (auto dest: set_takeWhileD)
  have rest: "?rest = [] \<or> is_space (hd ?rest)"
    using hd_dropWhile [of "\<lambda>c. \<not> is_space c" ?t] by auto
  have "\<not> (\<forall>c\<in>set s. is_space c)" using assms split_ws_empty_iff [of s] by auto
  then have "?t \<noteq> []" by (auto simp: dropWhile_eq_Nil_conv)
  then have "\<not> is_space (hd ?t)" using hd_dropWhile [of is_space s] by auto
  with \<open>?t \<noteq> []\<close> have wne: "?w \<noteq> []" by (cases ?t) auto
  obtain ws' where "split_ws (?sp @ ?w @ ?rest) = ?w # ws'"
    using split_ws_first [OF sp wne nw rest] by blast
  with s assms have "w = ?w" by (metis list.inject)
  with s sp nw rest wne show ?thesis by metis
qed

lemma alnum_not_space: "is_alnum c \<Longrightarrow> \<not> is_space c"
  by (auto simp: is_alnum_def is_space_def is_digit_def is_upper_def is_lower_def in_range_def)

section \<open>The classifier\<close>

lemma keyword_test: "list_ex (startswith (py_strip (py_lower command))) shell_keywords = starts_with_keyword command"
  by (simp add: list_ex_iff startswith_def starts_with_keyword_def)

lemma operator_test: "list_ex (\<lambda>op. py_contains op command) shell_operators = contains_operator command"
  by (simp add: list_ex_iff py_contains_iff contains_operator_def)

lemma isalnum_no_space: "py_isalnum w \<Longrightarrow> w \<noteq> [] \<and> (\<forall>c\<in>set w. \<not> is_space c)"
  by (auto simp: py_isalnum_def list_all_iff alnum_not_space)

lemma dollar_raises:
  assumes "CHR ''$'' \<in> set command"
  shows "first_word_after_last_dollar command = Inl IndexError \<longleftrightarrow> only_space_after_last_dollar command"
proof -
  obtain pre post where c: "command = pre @ CHR ''$'' # post" and n: "CHR ''$'' \<notin> set post"
    using split_list_last [OF assms] by blast
  have l: "last (split_on (CHR ''$'') command) = post" using c n by (simp add: split_on_last)
  have a: "first_word_after_last_dollar command = Inl IndexError \<longleftrightarrow> (\<forall>c\<in>set post. is_space c)"
    using split_ws_empty_iff [of post] by (auto simp: first_word_after_last_dollar_def l split: list.splits)
  have b: "only_space_after_last_dollar command \<longleftrightarrow> (\<forall>c\<in>set post. is_space c)"
  proof
    assume "only_space_after_last_dollar command"
    then obtain pre' post' where c': "command = pre' @ CHR ''$'' # post'" and s: "\<forall>c\<in>set post'. is_space c"
      by (auto simp: only_space_after_last_dollar_def)
    have "\<not> is_space (CHR ''$'')" by (simp add: is_space_def in_range_def)
    with s have "CHR ''$'' \<notin> set post'" by blast
    then have "last (split_on (CHR ''$'') command) = post'" using c' by (simp add: split_on_last)
    with l s show "\<forall>c\<in>set post. is_space c" by simp
  next
    assume "\<forall>c\<in>set post. is_space c"
    with c show "only_space_after_last_dollar command"
      by (auto simp: only_space_after_last_dollar_def)
  qed
  show ?thesis using a b by simp
qed

lemma dollar_word:
  assumes "first_word_after_last_dollar command = Inr w" and "CHR ''$'' \<in> set command"
  shows "py_isalnum w \<longleftrightarrow> word_after_last_dollar_alnum command"
proof -
  obtain pre post where c: "command = pre @ CHR ''$'' # post" and n: "CHR ''$'' \<notin> set post"
    using split_list_last [OF assms(2)] by blast
  have l: "last (split_on (CHR ''$'') command) = post" using c n by (simp add: split_on_last)
  obtain ws where w: "split_ws post = w # ws"
    using assms(1) by (auto simp: first_word_after_last_dollar_def l split: list.splits)
  show ?thesis
  proof
    assume al: "py_isalnum w"
    obtain sp rest where d: "post = sp @ w @ rest" "\<forall>c\<in>set sp. is_space c"
        "rest = [] \<or> is_space (hd rest)"
      using split_ws_first_decomp [OF w] by blast
    have "command = pre @ ''$'' @ sp @ w @ rest" using c d(1) by simp
    moreover have "CHR ''$'' \<notin> set (sp @ w @ rest)" using n d(1) by simp
    ultimately show "word_after_last_dollar_alnum command"
      unfolding word_after_last_dollar_alnum_def using d(2,3) al by blast
  next
    assume "word_after_last_dollar_alnum command"
    then obtain pre' sp w' rest where c': "command = pre' @ CHR ''$'' # (sp @ w' @ rest)"
        and n': "CHR ''$'' \<notin> set (sp @ w' @ rest)" and sp: "\<forall>c\<in>set sp. is_space c"
        and al: "py_isalnum w'" and r: "rest = [] \<or> is_space (hd rest)"
      by (auto simp: word_after_last_dollar_alnum_def)
    have "last (split_on (CHR ''$'') command) = sp @ w' @ rest"
      using split_on_last [OF n', of pre'] c' by simp
    with l have p: "post = sp @ w' @ rest" by simp
    obtain ws' where "split_ws (sp @ w' @ rest) = w' # ws'"
      using split_ws_first [OF sp _ _ r, of w'] isalnum_no_space [OF al] by blast
    with p w have "w = w'" by simp
    with al show "py_isalnum w" by simp
  qed
qed

lemma percent_test:
  "(length (split_on (CHR ''%'') command) > 2 \<and> py_isalnum (split_on (CHR ''%'') command ! 1))
     \<longleftrightarrow> percent_pair_alnum command"
proof
  assume h: "length (split_on (CHR ''%'') command) > 2 \<and> py_isalnum (split_on (CHR ''%'') command ! 1)"
  have "CHR ''%'' \<in> set command"
  proof (rule ccontr)
    assume "CHR ''%'' \<notin> set command"
    then have "split_on (CHR ''%'') command = [command]" by (rule split_on_absent)
    with h show False by simp
  qed
  then obtain a rest where c: "command = a @ CHR ''%'' # rest" and na: "CHR ''%'' \<notin> set a"
    using split_list_first by metis
  have s1: "split_on (CHR ''%'') command = a # split_on (CHR ''%'') rest"
    using c na by (simp add: split_on_append split_on_absent)
  have "CHR ''%'' \<in> set rest"
  proof (rule ccontr)
    assume "CHR ''%'' \<notin> set rest"
    then have "split_on (CHR ''%'') rest = [rest]" by (rule split_on_absent)
    with h s1 show False by simp
  qed
  then obtain b r where rr: "rest = b @ CHR ''%'' # r" and nb: "CHR ''%'' \<notin> set b"
    using split_list_first by metis
  have s2: "split_on (CHR ''%'') rest = b # split_on (CHR ''%'') r"
    using rr nb by (simp add: split_on_append split_on_absent)
  have "py_isalnum b" using h s1 s2 by simp
  moreover have "command = a @ ''%'' @ b @ ''%'' @ r" using c rr by simp
  ultimately show "percent_pair_alnum command"
    unfolding percent_pair_alnum_def using na nb by blast
next
  assume "percent_pair_alnum command"
  then obtain a b r where c: "command = a @ CHR ''%'' # (b @ CHR ''%'' # r)"
      and na: "CHR ''%'' \<notin> set a" and nb: "CHR ''%'' \<notin> set b" and al: "py_isalnum b"
    by (auto simp: percent_pair_alnum_def)
  have "split_on (CHR ''%'') command = a # b # split_on (CHR ''%'') r"
    using c na nb by (simp add: split_on_append split_on_absent)
  moreover have "split_on (CHR ''%'') r \<noteq> []" by (rule split_on_nonempty)
  ultimately show "length (split_on (CHR ''%'') command) > 2 \<and> py_isalnum (split_on (CHR ''%'') command ! 1)"
    using al by (cases "split_on (CHR ''%'') r") auto
qed

lemma percent_pair_has_percent: "percent_pair_alnum command \<Longrightarrow> CHR ''%'' \<in> set command"
  by (auto simp: percent_pair_alnum_def)

text \<open>
  The commands on which the classifier raises: those with no keyword, no operator and no
  brace whose last dollar sign is followed by nothing but whitespace.
\<close>

lemma looks_like_shell_script_raises:
  assumes "\<not> starts_with_keyword command" and "\<not> contains_operator command"
      and "CHR ''{'' \<notin> set command" and "only_space_after_last_dollar command"
  shows "looks_like_shell_script sys command = Inl IndexError"
proof -
  have d: "CHR ''$'' \<in> set command"
    using assms(4) by (auto simp: only_space_after_last_dollar_def)
  then have "first_word_after_last_dollar command = Inl IndexError"
    using dollar_raises assms(4) by blast
  then show ?thesis using assms(1,2,3) d
    by (simp add: looks_like_shell_script_def keyword_test operator_test py_contains_char)
qed

text \<open>
  What the classifier computes. On every command on which it returns, it returns true
  exactly when one of these holds: the lowercased, trimmed command starts with one of the
  four keywords; the command contains one of the seven operators; the command contains a
  dollar sign and either contains an opening brace anywhere, or the first whitespace-separated
  word of the text after its last dollar sign is alphanumeric; the platform is Windows, the
  command has at least two percent signs and the text between the first two is alphanumeric.
  The classifier returns on every command but those that have no keyword, no operator and no
  brace, and nothing but whitespace after a last dollar sign. It returns false on
  \<open>ffmpeg -i a.mp4 out.mp4\<close> and true on \<open>ffmpeg -i a.mp4 out.mp4 && echo done\<close>.
  The first two conditions are those of the comments in the code; the last two are narrower
  in one way and wider in another than the patterns \<open>${...}\<close>, \<open>$VAR\<close> and \<open>%VAR%\<close> that the
  comments name.
\<close>

lemma looks_like_shell_script_characterised:
  "(\<not> (\<not> starts_with_keyword command \<and> \<not> contains_operator command
        \<and> CHR ''{'' \<notin> set command \<and> only_space_after_last_dollar command)
    \<longrightarrow> looks_like_shell_script sys command
          = Inr (starts_with_keyword command \<or> contains_operator command
                 \<or> (CHR ''$'' \<in> set command
                      \<and> (CHR ''{'' \<in> set command \<or> word_after_last_dollar_alnum command))
                 \<or> (sys = ''Windows'' \<and> percent_pair_alnum command)))
   \<and> looks_like_shell_script sys ''ffmpeg -i a.mp4 out.mp4'' = Inr False
   \<and> looks_like_shell_script sys ''ffmpeg -i a.mp4 out.mp4 && echo done'' = Inr True"
proof (intro conjI impI)
  show "looks_like_shell_script sys ''ffmpeg -i a.mp4 out.mp4'' = Inr False"
    by code_simp
  show "looks_like_shell_script sys ''ffmpeg -i a.mp4 out.mp4 && echo done'' = Inr True"
    by code_simp
  assume assms: "\<not> (\<not> starts_with_keyword command \<and> \<not> contains_operator command
              \<and> CHR ''{'' \<notin> set command \<and> only_space_after_last_dollar command)"
  show "looks_like_shell_script sys command
           = Inr (starts_with_keyword command \<or> contains_operator command
                  \<or> (CHR ''$'' \<in> set command
                       \<and> (CHR ''{'' \<in> set command \<or> word_after_last_dollar_alnum command))
                  \<or> (sys = ''Windows'' \<and> percent_pair_alnum command))"
  proof (cases "starts_with_keyword command \<or> contains_operator command")
  case True
  then show ?thesis
    by (auto simp: looks_like_shell_script_def keyword_test operator_test)
next
  case False
  note nk = False
  show ?thesis
  proof (cases "CHR ''$'' \<in> set command")
    case False
    then show ?thesis using nk percent_test [of command] percent_pair_has_percent [of command]
      by (auto simp: looks_like_shell_script_def keyword_test operator_test py_contains_char)
  next
    case True
    note d = True
    show ?thesis
    proof (cases "CHR ''{'' \<in> set command")
      case True
      then show ?thesis using nk d
        by (simp add: looks_like_shell_script_def keyword_test operator_test py_contains_char)
    next
      case False
      with assms nk have "\<not> only_space_after_last_dollar command" by blast
      then have "first_word_after_last_dollar command \<noteq> Inl IndexError"
        using dollar_raises [OF d] by simp
      then obtain w where w: "first_word_after_last_dollar command = Inr w"
        by (auto simp: first_word_after_last_dollar_def split: list.splits)
      have a: "py_isalnum w \<longleftrightarrow> word_after_last_dollar_alnum command"
        by (rule dollar_word [OF w d])
      show ?thesis
        using nk d False w a percent_test [of command] percent_pair_has_percent [of command]
        by (auto simp: looks_like_shell_script_def keyword_test operator_test py_contains_char)
    qed
  qed
qed
qed

text \<open>
  At \<open>echo $HOME\<close> on Linux the word after the dollar sign is alphanumeric, so the command
  is classified as a shell line.
\<close>

lemma looks_like_shell_script_characterised_example:
  "\<not> only_space_after_last_dollar ''echo $HOME''
   \<and> looks_like_shell_script ''Linux'' ''echo $HOME''
       = Inr (starts_with_keyword ''echo $HOME'' \<or> contains_operator ''echo $HOME''
              \<or> (CHR ''$'' \<in> set ''echo $HOME''
                   \<and> (CHR ''{'' \<in> set ''echo $HOME'' \<or> word_after_last_dollar_alnum ''echo $HOME''))
              \<or> (''Linux'' = ''Windows'' \<and> percent_pair_alnum ''echo $HOME''))
   \<and> looks_like_shell_script ''Linux'' ''echo $HOME'' = Inr True"
proof -
  have "first_word_after_last_dollar ''echo $HOME'' \<noteq> Inl IndexError" by code_simp
  then have h: "\<not> only_space_after_last_dollar ''echo $HOME''"
    using dollar_raises [of "''echo $HOME''"] by simp
  have e: "looks_like_shell_script ''Linux'' ''echo $HOME'' = Inr True" by code_simp
  show ?thesis
    using h e looks_like_shell_script_characterised [of "''echo $HOME''" "''Linux''"] by simp
qed

text \<open>
  Claim C2. The classifier is to return true exactly when the command starts with a
  keyword, contains an operator, contains a dollar sign followed immediately by an opening
  brace or an alphanumeric token, or, on Windows, contains a \<open>%name%\<close> token; the comments
  of the code say the same ("Match \<open>${...}\<close> or \<open>$VAR\<close> type patterns (but avoid simple \<open>$\<close>
  signs)", "Match \<open>%VAR%\<close> on Windows"). The code does not do this. In \<open>echo $ x\<close> the only
  dollar sign is a simple one, followed by a space, yet the classifier returns true, because
  the first word after the last dollar sign, \<open>x\<close>, is alphanumeric. In \<open>echo $a $-\<close> the
  first dollar sign is followed immediately by the alphanumeric \<open>a\<close>, yet the classifier
  returns false, because it looks only at the word after the last dollar sign. On Windows,
  \<open>echo %a b% %c%\<close> holds the token \<open>%c%\<close>, yet the classifier returns false, because it
  looks only at the text between the first two percent signs.
\<close>

theorem looks_like_shell_script_misses_patterns:
  "looks_like_shell_script ''Linux'' ''echo $ x'' = Inr True
   \<and> \<not> spec_requires_shell ''Linux'' ''echo $ x''
   \<and> looks_like_shell_script ''Linux'' ''echo $a $-'' = Inr False
   \<and> spec_requires_shell ''Linux'' ''echo $a $-''
   \<and> looks_like_shell_script ''Windows'' ''echo %a b% %c%'' = Inr False
   \<and> spec_requires_shell ''Windows'' ''echo %a b% %c%''"
proof -
  have c: "looks_like_shell_script ''Windows'' ''echo %a b% %c%'' = Inr False" by code_simp
  have p: "percent_name_token ''echo %a b% %c%''" by code_simp
  have a: "looks_like_shell_script ''Linux'' ''echo $ x'' = Inr True" by code_simp
  have b: "looks_like_shell_script ''Linux'' ''echo $a $-'' = Inr False" by code_simp
  have k: "\<not> starts_with_keyword ''echo $ x''"
    unfolding keyword_test [symmetric] by code_simp
  have o: "\<not> contains_operator ''echo $ x''"
    unfolding operator_test [symmetric] by code_simp
  have d: "\<not> dollar_followed ''echo $ x''" by code_simp
  have d': "dollar_followed ''echo $a $-''" by code_simp
  show ?thesis using a b c k o d d' p by (simp add: spec_requires_shell_def)
qed

section \<open>The retry loop\<close>

lemma retry_loop_failure:
  assumes "int a < m" and "run_command (envs (Suc a)) c = Inr (False, out)" and "\<not> is_no_retry out"
  shows "retry_loop envs m c a prev s
           = retry_loop envs m c (Suc a) out (if int (Suc a) < m then s @ [2 ^ Suc a] else s)"
  using assms by (subst retry_loop.simps) simp

lemma retry_loop_exhausted:
  assumes "\<not> int a < m"
  shows "retry_loop envs m c a prev s = \<lparr>outcome = Inr (False, prev), slept = s, attempts = a\<rparr>"
  using assms by (subst retry_loop.simps) simp

text \<open>
  Claim C3, as amended. Let the configured maximum be at least 1. For a command that is
  classified as a plain argument vector, splits into at least one word, whose first word
  \<open>shutil.which\<close> does not find and whose launch raises \<open>FileNotFoundError\<close> (the
  executable does not exist), \<open>execute_with_retries\<close> returns \<open>(False, output)\<close> after
  exactly one attempt and without sleeping, whatever the maximum is.
\<close>

theorem missing_executable_single_attempt:
  assumes "looks_like_shell_script (platform_system (envs 1)) command = Inr False"
      and "shlex_split command = Inr (exe # args)"
      and "which (envs 1) exe = None"
      and "subprocess_run (envs 1) (ArgVector (exe # args)) = Raised (FileNotFound e)"
      and "1 \<le> max_retries"
  shows "execute_with_retries envs max_retries command
           = \<lparr>outcome = Inr (False, ''Error: FileNotFoundError during command execution. Command or shell not found? Details: '' @ e),
              slept = [], attempts = 1\<rparr>"
proof -
  let ?msg = "''Error: FileNotFoundError during command execution. Command or shell not found? Details: '' @ e"
  have r: "run_command (envs (Suc 0)) command = Inr (False, ?msg)"
    using assms by (simp add: run_command_def run_process_def)
  have "?msg = ''Error: '' @ ''FileNotFoundError'' @ ('' during command execution. Command or shell not found? Details: '' @ e)"
    by simp
  then have "py_contains ''FileNotFoundError'' ?msg"
    unfolding py_contains_iff by blast
  then have n: "is_no_retry ?msg"
    by (simp add: is_no_retry_def no_retry_errors_def)
  show ?thesis using assms(5) r n
    by (simp add: execute_with_retries_def retry_loop.simps [of _ _ _ 0])
qed

lemma nosuchtool_plain: "looks_like_shell_script ''Linux'' ''nosuchtool -x'' = Inr False"
  by code_simp

lemma nosuchtool_split: "shlex_split ''nosuchtool -x'' = Inr [''nosuchtool'', ''-x'']"
  by code_simp

text \<open>The theorem at \<open>nosuchtool -x\<close> with a maximum of 2, where nothing is on the search path.\<close>

theorem missing_executable_single_attempt_witness:
  "looks_like_shell_script (platform_system (missing_envs 1)) ''nosuchtool -x'' = Inr False
   \<and> shlex_split ''nosuchtool -x'' = Inr [''nosuchtool'', ''-x'']
   \<and> which (missing_envs 1) ''nosuchtool'' = None
   \<and> subprocess_run (missing_envs 1) (ArgVector [''nosuchtool'', ''-x''])
       = Raised (FileNotFound ''[Errno 2] No such file or directory'')
   \<and> execute_with_retries missing_envs 2 ''nosuchtool -x''
       = \<lparr>outcome = Inr (False, ''Error: FileNotFoundError during command execution. Command or shell not found? Details: [Errno 2] No such file or directory''),
          slept = [], attempts = 1\<rparr>"
proof -
  have h1: "looks_like_shell_script (platform_system (missing_envs 1)) ''nosuchtool -x'' = Inr False"
    by (simp add: missing_envs_def missing_env_def nosuchtool_plain)
  have h3: "which (missing_envs 1) ''nosuchtool'' = None"
    by (simp add: missing_envs_def missing_env_def)
  have h4: "subprocess_run (missing_envs 1) (ArgVector [''nosuchtool'', ''-x''])
       = Raised (FileNotFound ''[Errno 2] No such file or directory'')"
    by (simp add: missing_envs_def missing_env_def)
  show ?thesis
    using h1 nosuchtool_split h3 h4
      missing_executable_single_attempt [where envs = missing_envs and max_retries = 2
        and command = "''nosuchtool -x''" and exe = "''nosuchtool''" and args = "[''-x'']"
        and e = "''[Errno 2] No such file or directory''"]
    by simp
qed

text \<open>
  Claim C3 as stated ("regardless of the configured maximum") fails at the maximum 0: the
  loop body never runs, so no attempt is made, and the result is the initial
  \<open>(False, "No error output captured.")\<close>.
\<close>

theorem missing_executable_zero_retries_counterexample:
  "looks_like_shell_script (platform_system (missing_envs 1)) ''nosuchtool -x'' = Inr False
   \<and> shlex_split ''nosuchtool -x'' = Inr [''nosuchtool'', ''-x'']
   \<and> which (missing_envs 1) ''nosuchtool'' = None
   \<and> subprocess_run (missing_envs 1) (ArgVector [''nosuchtool'', ''-x''])
       = Raised (FileNotFound ''[Errno 2] No such file or directory'')
   \<and> execute_with_retries missing_envs 0 ''nosuchtool -x''
       = \<lparr>outcome = Inr (False, ''No error output captured.''), slept = [], attempts = 0\<rparr>
   \<and> attempts (execute_with_retries missing_envs 0 ''nosuchtool -x'') \<noteq> 1"
  by (simp add: missing_envs_def missing_env_def nosuchtool_plain nosuchtool_split
      execute_with_retries_def retry_loop.simps [of _ _ _ 0])

text \<open>
  Outside the amended claim: when the launch of an executable that \<open>shutil.which\<close> did not
  find raises another error than \<open>FileNotFoundError\<close>, the output holds none of the
  markers (the prefix computed for the missing executable is not part of it), and the
  attempt is repeated after a sleep.
\<close>

lemma unresolved_permission_denied_is_retried:
  "execute_with_retries denied_envs 2 ''nosuchtool -x''
     = \<lparr>outcome = Inr (False, ''Subprocess execution error: [Errno 13] Permission denied''),
        slept = [2], attempts = 2\<rparr>"
proof -
  have r: "run_command (denied_envs k) ''nosuchtool -x''
      = Inr (False, ''Subprocess execution error: [Errno 13] Permission denied'')" for k
    by (simp add: run_command_def run_process_def denied_envs_def nosuchtool_plain nosuchtool_split)
  have g: "\<not> is_no_retry ''Subprocess execution error: [Errno 13] Permission denied''"
    by code_simp
  have "execute_with_retries denied_envs 2 ''nosuchtool -x''
      = retry_loop denied_envs 2 ''nosuchtool -x'' 0 ''No error output captured.'' []"
    by (simp add: execute_with_retries_def)
  also have "\<dots> = retry_loop denied_envs 2 ''nosuchtool -x'' (Suc 0)
      ''Subprocess execution error: [Errno 13] Permission denied'' [2]"
    using retry_loop_failure [where a = 0 and m = 2 and envs = denied_envs
        and c = "''nosuchtool -x''" and out = "''Subprocess execution error: [Errno 13] Permission denied''"]
      r g by simp
  also have "\<dots> = retry_loop denied_envs 2 ''nosuchtool -x'' (Suc (Suc 0))
      ''Subprocess execution error: [Errno 13] Permission denied'' [2]"
    using retry_loop_failure [where a = "Suc 0" and m = 2 and envs = denied_envs
        and c = "''nosuchtool -x''" and out = "''Subprocess execution error: [Errno 13] Permission denied''"]
      r g by simp
  also have "\<dots> = \<lparr>outcome = Inr (False, ''Subprocess execution error: [Errno 13] Permission denied''),
        slept = [2], attempts = 2\<rparr>"
    by (simp add: retry_loop_exhausted)
  finally show ?thesis .
qed

text \<open>
  A run that completes with a return code other than 0 makes \<open>run_command\<close> return
  \<open>False\<close> and an output that starts, after the prefix for an executable that was not
  found, with \<open>Command failed with exit code\<close>.
\<close>

lemma run_process_nonzero_exit:
  assumes "subprocess_run env arg = Completed returncode out err" and "returncode \<noteq> 0"
  shows "run_process env command arg error_prefix
           = (False, (if error_prefix \<noteq> [] then error_prefix @ ''\<newline>'' else [])
                     @ ''Command failed with exit code '' @ str_int returncode @ ''.'' @ ''\<newline>''
                     @ combine_output out err)"
  using assms by (simp add: run_process_def Let_def)

lemma run_command_nonzero_exit:
  assumes "looks_like_shell_script (platform_system env) command = Inr True"
      and "subprocess_run env (ShellLine command) = Completed returncode out err"
      and "returncode \<noteq> 0"
  shows "run_command env command
           = Inr (False, ''Command failed with exit code '' @ str_int returncode @ ''.'' @ ''\<newline>''
                         @ combine_output out err)"
  using assms by (simp add: run_command_def run_process_nonzero_exit)

text \<open>
  Claim C6. Under a maximum of 3, if each of the three attempts fails with an output that
  holds none of the no-retry markers (as a plain non-zero exit does), the executor makes
  exactly three attempts, sleeps \<open>2^1\<close> seconds after the first and \<open>2^2\<close> after the
  second, does not sleep after the third, and returns \<open>False\<close> with the output of the third
  attempt.
\<close>

theorem three_generic_failures_backoff:
  assumes run: "\<And>k. k \<in> {1, 2, 3} \<Longrightarrow> run_command (envs k) command = Inr (False, out k)"
      and generic: "\<And>k. k \<in> {1, 2, 3} \<Longrightarrow> \<not> is_no_retry (out k)"
  shows "execute_with_retries envs 3 command
           = \<lparr>outcome = Inr (False, out 3), slept = [2 ^ 1, 2 ^ 2], attempts = 3\<rparr>"
proof -
  have r1: "run_command (envs (Suc 0)) command = Inr (False, out 1)" using run [of 1] by simp
  have r2: "run_command (envs (Suc (Suc 0))) command = Inr (False, out 2)"
    using run [of 2] by (simp add: numeral_2_eq_2)
  have r3: "run_command (envs (Suc (Suc (Suc 0)))) command = Inr (False, out 3)"
    using run [of 3] by (simp add: numeral_3_eq_3)
  have g: "\<not> is_no_retry (out 1)" "\<not> is_no_retry (out 2)" "\<not> is_no_retry (out 3)"
    using generic by simp_all
  have "execute_with_retries envs 3 command
          = retry_loop envs 3 command 0 ''No error output captured.'' []"
    by (simp add: execute_with_retries_def)
  also have "\<dots> = retry_loop envs 3 command (Suc 0) (out 1) [2 ^ 1]"
    using retry_loop_failure [where a = 0 and m = 3 and envs = envs and c = command and out = "out 1"]
      r1 g(1) by simp
  also have "\<dots> = retry_loop envs 3 command (Suc (Suc 0)) (out 2) [2 ^ 1, 2 ^ 2]"
    using retry_loop_failure [where a = "Suc 0" and m = 3 and envs = envs and c = command and out = "out 2"]
      r2 g(2) by simp
  also have "\<dots> = retry_loop envs 3 command (Suc (Suc (Suc 0))) (out 3) [2 ^ 1, 2 ^ 2]"
    using retry_loop_failure [where a = "Suc (Suc 0)" and m = 3 and envs = envs and c = command and out = "out 3"]
      r3 g(3) by simp
  also have "\<dots> = \<lparr>outcome = Inr (False, out 3), slept = [2 ^ 1, 2 ^ 2], attempts = 3\<rparr>"
    by (simp add: retry_loop_exhausted)
  finally show ?thesis .
qed

lemma failing_run:
  "run_command (failing_envs 1) ''ffmpeg -i a.mp4 out.mp4'' = Inr (False, failing_output 1)"
  "run_command (failing_envs 2) ''ffmpeg -i a.mp4 out.mp4'' = Inr (False, failing_output 2)"
  "run_command (failing_envs 3) ''ffmpeg -i a.mp4 out.mp4'' = Inr (False, failing_output 3)"
  by code_simp+

lemma failing_generic:
  "\<not> is_no_retry (failing_output 1)" "\<not> is_no_retry (failing_output 2)"
  "\<not> is_no_retry (failing_output 3)"
  by code_simp+

text \<open>
  The theorem at \<open>ffmpeg -i a.mp4 out.mp4\<close> where every run exits with code 1: the sleeps are
  2 and 4 seconds and the output returned is the third attempt's.
\<close>

theorem three_generic_failures_backoff_witness:
  "run_command (failing_envs 1) ''ffmpeg -i a.mp4 out.mp4'' = Inr (False, failing_output 1)
   \<and> run_command (failing_envs 2) ''ffmpeg -i a.mp4 out.mp4'' = Inr (False, failing_output 2)
   \<and> run_command (failing_envs 3) ''ffmpeg -i a.mp4 out.mp4'' = Inr (False, failing_output 3)
   \<and> \<not> is_no_retry (failing_output 1) \<and> \<not> is_no_retry (failing_output 2)
   \<and> \<not> is_no_retry (failing_output 3)
   \<and> execute_with_retries failing_envs 3 ''ffmpeg -i a.mp4 out.mp4''
       = \<lparr>outcome = Inr (False, ''Command failed with exit code 1.\<newline>Stderr:\<newline>failure 3''),
          slept = [2, 4], attempts = 3\<rparr>"
proof -
  have r: "run_command (failing_envs k) ''ffmpeg -i a.mp4 out.mp4'' = Inr (False, failing_output k)"
    if "k \<in> {1, 2, 3}" for k using that failing_run by auto
  have g: "\<not> is_no_retry (failing_output k)" if "k \<in> {1, 2, 3}" for k
    using that failing_generic by auto
  have o: "failing_output 3 = ''Command failed with exit code 1.\<newline>Stderr:\<newline>failure 3''"
    by code_simp
  show ?thesis
    using failing_run failing_generic o
      three_generic_failures_backoff [of failing_envs "''ffmpeg -i a.mp4 out.mp4''" failing_output, OF r g]
    by simp
qed

text \<open>
  Claim C10. On the command \<open>echo $\<close> the classifier raises \<open>IndexError\<close>: the command has a
  dollar sign, no brace, and no word after the dollar sign. \<open>run_command\<close> calls the
  classifier outside its handlers and \<open>execute_with_retries\<close> has none, so with any maximum
  of at least 1 and in any environment \<open>execute_with_retries\<close> raises on its first attempt
  instead of returning a pair.
\<close>

theorem classifier_index_error_propagates:
  "looks_like_shell_script sys ''echo $'' = Inl IndexError
   \<and> run_command env ''echo $'' = Inl IndexError
   \<and> execute_with_retries envs (1 + int n) ''echo $''
       = \<lparr>outcome = Inl IndexError, slept = [], attempts = 1\<rparr>"
proof -
  have a: "looks_like_shell_script sys ''echo $'' = Inl IndexError" for sys by code_simp
  have b: "run_command env ''echo $'' = Inl IndexError" for env by (simp add: run_command_def a)
  show ?thesis
    by (simp add: a b execute_with_retries_def retry_loop.simps [of _ _ _ 0])
qed


section \<open>The response sanitizer\<close>

lemma takeWhile_first: "c \<notin> set pre \<Longrightarrow> takeWhile (\<lambda>x. x \<noteq> c) (pre @ c # rest) = pre"
  by (induction pre) auto

lemma py_index_first: "c \<notin> set pre \<Longrightarrow> py_index (pre @ c # rest) c = Inr (length pre)"
  by (simp add: py_index_def takeWhile_first)

lemma py_rindex_last: "c \<notin> set post \<Longrightarrow> py_rindex (pre @ c # post) c = Inr (length pre)"
proof -
  assume n: "c \<notin> set post"
  have "rev (pre @ c # post) = rev post @ c # rev pre" by simp
  then have "takeWhile (\<lambda>x. x \<noteq> c) (rev (pre @ c # post)) = rev post"
    using takeWhile_first [of c "rev post" "rev pre"] n by simp
  then show ?thesis by (simp add: py_rindex_def)
qed

lemma json_span_braces:
  assumes "CHR ''{'' \<notin> set pre" and "CHR ''}'' \<notin> set post"
  shows "json_span (pre @ ''{'' @ mid @ ''}'' @ post) = Inr (''{'' @ mid @ ''}'')"
proof -
  have i: "py_index (pre @ CHR ''{'' # (mid @ CHR ''}'' # post)) (CHR ''{'') = Inr (length pre)"
    by (rule py_index_first [OF assms(1)])
  have "py_rindex ((pre @ CHR ''{'' # mid) @ CHR ''}'' # post) (CHR ''}'') = Inr (length (pre @ CHR ''{'' # mid))"
    by (rule py_rindex_last [OF assms(2)])
  then have j: "py_rindex (pre @ CHR ''{'' # (mid @ CHR ''}'' # post)) (CHR ''}'') = Inr (Suc (length pre + length mid))"
    by simp
  show ?thesis using i j by (simp add: json_span_def py_slice_def)
qed

lemma json_span_absent:
  assumes "CHR ''{'' \<notin> set s \<or> CHR ''}'' \<notin> set s"
  shows "or_unchanged s (json_span s) = Inr s"
  using assms by (auto simp: json_span_def or_unchanged_def py_index_def py_rindex_def)

lemma or_unchanged_Inr: "or_unchanged s (Inr r) = Inr r"
  by (simp add: or_unchanged_def)

text \<open>
  Claim C7, as amended. Take the input string after trimming and fence removal. If it
  has an opening brace and, somewhere after the first opening brace, a closing brace, then
  \<open>clean_json_response\<close> returns exactly the substring from the first opening brace to the
  last closing brace, both included. If an opening brace or a closing brace is absent, it
  returns the trimmed, fence-stripped string unchanged. No exception is raised. This holds
  for the function of either generator.
\<close>

theorem clean_json_response_span:
  "(strip_markdown_app raw = pre @ ''{'' @ mid @ ''}'' @ post \<and> CHR ''{'' \<notin> set pre \<and> CHR ''}'' \<notin> set post
      \<longrightarrow> clean_json_response_app (PyStr raw) = Inr (''{'' @ mid @ ''}''))
   \<and> (CHR ''{'' \<notin> set (strip_markdown_app raw) \<or> CHR ''}'' \<notin> set (strip_markdown_app raw)
      \<longrightarrow> clean_json_response_app (PyStr raw) = Inr (strip_markdown_app raw))
   \<and> (strip_markdown_min raw = pre @ ''{'' @ mid @ ''}'' @ post \<and> CHR ''{'' \<notin> set pre \<and> CHR ''}'' \<notin> set post
      \<longrightarrow> clean_json_response_min (PyStr raw) = Inr (''{'' @ mid @ ''}''))
   \<and> (CHR ''{'' \<notin> set (strip_markdown_min raw) \<or> CHR ''}'' \<notin> set (strip_markdown_min raw)
      \<longrightarrow> clean_json_response_min (PyStr raw) = Inr (strip_markdown_min raw))"
proof (intro conjI impI)
  assume "strip_markdown_app raw = pre @ ''{'' @ mid @ ''}'' @ post \<and> CHR ''{'' \<notin> set pre \<and> CHR ''}'' \<notin> set post"
  then show "clean_json_response_app (PyStr raw) = Inr (''{'' @ mid @ ''}'')"
    using json_span_braces [of pre post mid]
    by (simp add: clean_json_response_app_def or_unchanged_Inr)
next
  assume "CHR ''{'' \<notin> set (strip_markdown_app raw) \<or> CHR ''}'' \<notin> set (strip_markdown_app raw)"
  then show "clean_json_response_app (PyStr raw) = Inr (strip_markdown_app raw)"
    by (simp add: clean_json_response_app_def json_span_absent)
next
  assume "strip_markdown_min raw = pre @ ''{'' @ mid @ ''}'' @ post \<and> CHR ''{'' \<notin> set pre \<and> CHR ''}'' \<notin> set post"
  then show "clean_json_response_min (PyStr raw) = Inr (''{'' @ mid @ ''}'')"
    using json_span_braces [of pre post mid]
    by (simp add: clean_json_response_min_def or_unchanged_Inr)
next
  assume "CHR ''{'' \<notin> set (strip_markdown_min raw) \<or> CHR ''}'' \<notin> set (strip_markdown_min raw)"
  then show "clean_json_response_min (PyStr raw) = Inr (strip_markdown_min raw)"
    by (simp add: clean_json_response_min_def json_span_absent)
qed

lemma prose_prepared:
  "strip_markdown_app '' Sure: {x: {y}} done.  '' = ''Sure: {x: {y}} done.''"
  "strip_markdown_min '' Sure: {x: {y}} done.  '' = ''Sure: {x: {y}} done.''"
  "strip_markdown_app '' no object here '' = ''no object here''"
  "strip_markdown_min '' no object here '' = ''no object here''"
  by code_simp+

text \<open>
  The theorem at a response with prose around a nested object, and at one with no object.
\<close>

theorem clean_json_response_span_witness:
  "strip_markdown_app '' Sure: {x: {y}} done.  '' = ''Sure: '' @ ''{'' @ ''x: {y}'' @ ''}'' @ '' done.''
   \<and> CHR ''{'' \<notin> set ''Sure: '' \<and> CHR ''}'' \<notin> set '' done.''
   \<and> clean_json_response_app (PyStr '' Sure: {x: {y}} done.  '') = Inr ''{x: {y}}''
   \<and> clean_json_response_min (PyStr '' Sure: {x: {y}} done.  '') = Inr ''{x: {y}}''
   \<and> CHR ''{'' \<notin> set (strip_markdown_app '' no object here '')
   \<and> clean_json_response_app (PyStr '' no object here '') = Inr ''no object here''
   \<and> clean_json_response_min (PyStr '' no object here '') = Inr ''no object here''"
proof -
  have a: "CHR ''{'' \<notin> set ''Sure: ''" "CHR ''}'' \<notin> set '' done.''"
    "CHR ''{'' \<notin> set ''no object here''" by simp_all
  show ?thesis
    using a prose_prepared
      clean_json_response_span [of "'' Sure: {x: {y}} done.  ''" "''Sure: ''" "''x: {y}''" "'' done.''"]
      clean_json_response_span [of "'' no object here ''" "[]" "[]" "[]"]
    by simp
qed

text \<open>
  Claim C7 as stated fails on \<open>} {\<close>: the string has both braces, but its last closing brace
  comes before its first opening brace, the slice \<open>s[2:1]\<close> is empty, and the function
  returns the empty string, which holds neither brace.
\<close>

theorem clean_json_response_reversed_braces_counterexample:
  "CHR ''{'' \<in> set (strip_markdown_app ''} {'') \<and> CHR ''}'' \<in> set (strip_markdown_app ''} {'')
   \<and> clean_json_response_app (PyStr ''} {'') = Inr []
   \<and> CHR ''{'' \<in> set (strip_markdown_min ''} {'') \<and> CHR ''}'' \<in> set (strip_markdown_min ''} {'')
   \<and> clean_json_response_min (PyStr ''} {'') = Inr []"
proof -
  have "strip_markdown_app ''} {'' = ''} {''" "strip_markdown_min ''} {'' = ''} {''"
    "clean_json_response_app (PyStr ''} {'') = Inr []"
    "clean_json_response_min (PyStr ''} {'') = Inr []"
    by code_simp+
  then show ?thesis by simp
qed

text \<open>
  Neither sanitizer raises on a string: the only exception of the \<open>try\<close> block is the
  \<open>ValueError\<close> of \<open>index\<close> and \<open>rindex\<close>, which is caught.
\<close>

lemma or_unchanged_json_span_total: "\<exists>r. or_unchanged s (json_span s) = Inr r"
  by (auto simp: or_unchanged_def json_span_def py_index_def py_rindex_def)

lemma clean_json_response_total_on_strings:
  "\<exists>r. clean_json_response_app (PyStr raw) = Inr r"
  "\<exists>r. clean_json_response_min (PyStr raw) = Inr r"
  by (simp_all add: clean_json_response_app_def clean_json_response_min_def Let_def
      or_unchanged_json_span_total)

text \<open>
  Claim C9, as amended. For every input that is not a string, the sanitizer of the
  context-aware generator (\<open>app/command_generator.py\<close>) returns the empty string and raises
  no exception.
\<close>

theorem clean_json_response_app_non_string:
  "(\<forall>raw. v \<noteq> PyStr raw) \<longrightarrow> clean_json_response_app v = Inr []"
  by (cases v) (simp_all add: clean_json_response_app_def)

text \<open>The theorem at \<open>None\<close> and at a list.\<close>

theorem clean_json_response_app_non_string_witness:
  "(\<forall>raw. PyNone \<noteq> PyStr raw) \<and> clean_json_response_app PyNone = Inr []
   \<and> (\<forall>raw. PyList [PyInt 1, PyStr ''{}''] \<noteq> PyStr raw)
   \<and> clean_json_response_app (PyList [PyInt 1, PyStr ''{}'']) = Inr []"
  using clean_json_response_app_non_string [of PyNone]
    clean_json_response_app_non_string [of "PyList [PyInt 1, PyStr ''{}'']"]
  by simp

text \<open>
  Claim C9 as stated fails for the sanitizer of the minimal generator
  (\<open>command_generator.py\<close>), which has no type check: it calls \<open>strip\<close> on its argument, so
  \<open>None\<close> raises \<open>AttributeError\<close>, and a bytes object passes \<open>strip\<close> and raises
  \<open>TypeError\<close> at \<open>startswith\<close>.
\<close>

theorem clean_json_response_min_non_string_counterexample:
  "clean_json_response_min PyNone = Inl AttributeError
   \<and> clean_json_response_min (PyBytes ''{}'') = Inl TypeError"
  by (simp add: clean_json_response_min_def)


section \<open>Tokens: \<open>shlex.split\<close> after \<open>shlex.join\<close>\<close>

lemma shlex_safe_plain:
  "shlex_safe c \<Longrightarrow> \<not> shlex_whitespace c \<and> \<not> shlex_quotes c \<and> c \<noteq> backslash"
  by (auto simp: shlex_safe_def shlex_whitespace_def shlex_quotes_def squote_def dquote_def
      backslash_def is_alnum_def is_digit_def is_upper_def is_lower_def in_range_def)

lemma shlex_loop_safe_word:
  "list_all shlex_safe w \<Longrightarrow>
     shlex_loop SWord es q tok (w @ rest) = shlex_loop SWord es q (tok @ w) rest"
proof (induction w arbitrary: tok)
  case Nil then show ?case by simp
next
  case (Cons c w)
  then have "\<not> shlex_whitespace c" "\<not> shlex_quotes c" "c \<noteq> backslash" "list_all shlex_safe w"
    using shlex_safe_plain [of c] by simp_all
  then show ?case using Cons.IH [of "tok @ [c]"] by simp
qed

lemma shlex_loop_quoted_body:
  "shlex_loop (SQuote squote) es q tok (concat (map quote_escape t) @ squote # rest)
     = shlex_loop SWord es True (tok @ t) rest"
proof (induction t arbitrary: tok q)
  case Nil then show ?case by simp
next
  case (Cons c t)
  show ?case
  proof (cases "c = squote")
    case True
    have "shlex_loop (SQuote squote) es q tok (concat (map quote_escape (c # t)) @ squote # rest)
        = shlex_loop (SQuote squote) es True (tok @ [squote]) (concat (map quote_escape t) @ squote # rest)"
      using True by (simp add: quote_escape_def shlex_quotes_def shlex_whitespace_def squote_def dquote_def backslash_def)
    then show ?thesis using Cons.IH [of True "tok @ [squote]"] True by simp
  next
    case False
    have "shlex_loop (SQuote squote) es q tok (concat (map quote_escape (c # t)) @ squote # rest)
        = shlex_loop (SQuote squote) es True (tok @ [c]) (concat (map quote_escape t) @ squote # rest)"
      using False by (simp add: quote_escape_def squote_def dquote_def)
    then show ?thesis using Cons.IH [of True "tok @ [c]"] by simp
  qed
qed

lemma shlex_loop_quoted_token:
  "shlex_loop SSpace SSpace False [] (shlex_quote t @ rest)
     = (case rest of
          [] \<Rightarrow> Inr [t]
        | c # r \<Rightarrow> if c = CHR '' '' then emit t (shlex_loop SSpace SSpace False [] r)
                   else shlex_loop SSpace SSpace False [] (shlex_quote t @ rest))"
proof (cases rest)
  case Nil
  show ?thesis
  proof (cases "t = []")
    case True
    then show ?thesis using Nil
      by (simp add: shlex_quote_def shlex_whitespace_def shlex_quotes_def squote_def backslash_def)
  next
    case False
    note ne = False
    show ?thesis
    proof (cases "list_all shlex_safe t")
      case True
      obtain c w where t: "t = c # w" using ne by (cases t) auto
      have c: "\<not> shlex_whitespace c" "\<not> shlex_quotes c" "c \<noteq> backslash" and w: "list_all shlex_safe w"
        using True t shlex_safe_plain [of c] by simp_all
      have "shlex_loop SSpace SSpace False [] (c # w @ []) = shlex_loop SWord SSpace False [c] (w @ [])"
        using c by simp
      also have "\<dots> = shlex_loop SWord SSpace False ([c] @ w) []"
        by (rule shlex_loop_safe_word [OF w])
      finally show ?thesis using Nil True ne t by (simp add: shlex_quote_def)
    next
      case False
      have "shlex_loop SSpace SSpace False [] ([squote] @ concat (map quote_escape t) @ [squote])
          = shlex_loop (SQuote squote) SSpace False [] (concat (map quote_escape t) @ squote # [])"
        by (simp add: shlex_whitespace_def shlex_quotes_def squote_def backslash_def)
      also have "\<dots> = shlex_loop SWord SSpace True ([] @ t) []"
        by (rule shlex_loop_quoted_body)
      finally show ?thesis using Nil False ne by (simp add: shlex_quote_def)
    qed
  qed
next
  case (Cons d r)
  show ?thesis
  proof (cases "d = CHR '' ''")
    case False then show ?thesis using Cons by simp
  next
    case True
    note sp = True
    have ws: "shlex_whitespace (CHR '' '')" by (simp add: shlex_whitespace_def)
    show ?thesis
    proof (cases "t = []")
      case True
      then show ?thesis using Cons sp ws
        by (simp add: shlex_quote_def shlex_quotes_def squote_def backslash_def shlex_whitespace_def)
    next
      case False
      note ne = False
      show ?thesis
      proof (cases "list_all shlex_safe t")
        case True
        obtain c w where t: "t = c # w" using ne by (cases t) auto
        have c: "\<not> shlex_whitespace c" "\<not> shlex_quotes c" "c \<noteq> backslash" and w: "list_all shlex_safe w"
          using True t shlex_safe_plain [of c] by simp_all
        have "shlex_loop SSpace SSpace False [] (c # w @ CHR '' '' # r)
            = shlex_loop SWord SSpace False [c] (w @ CHR '' '' # r)"
          using c by simp
        also have "\<dots> = shlex_loop SWord SSpace False ([c] @ w) (CHR '' '' # r)"
          by (rule shlex_loop_safe_word [OF w])
        also have "\<dots> = emit t (shlex_loop SSpace SSpace False [] r)"
          using ws t by simp
        finally show ?thesis using Cons sp True ne t by (simp add: shlex_quote_def)
      next
        case False
        have "shlex_loop SSpace SSpace False [] (([squote] @ concat (map quote_escape t) @ [squote]) @ CHR '' '' # r)
            = shlex_loop (SQuote squote) SSpace False [] (concat (map quote_escape t) @ squote # CHR '' '' # r)"
          by (simp add: shlex_whitespace_def shlex_quotes_def squote_def backslash_def)
        also have "\<dots> = shlex_loop SWord SSpace True ([] @ t) (CHR '' '' # r)"
          by (rule shlex_loop_quoted_body)
        also have "\<dots> = emit t (shlex_loop SSpace SSpace False [] r)"
          using ws by simp
        finally show ?thesis using Cons sp False ne by (simp add: shlex_quote_def)
      qed
    qed
  qed
qed

lemma shlex_split_join: "shlex_split (shlex_join tokens) = Inr tokens"
proof (induction tokens rule: induct_list012)
  case 1
  then show ?case by (simp add: shlex_split_def shlex_join_def)
next
  case (2 t)
  then show ?case
    using shlex_loop_quoted_token [of t "[]"] by (simp add: shlex_split_def shlex_join_def)
next
  case (3 t u us)
  have "shlex_split (shlex_join (t # u # us))
      = shlex_loop SSpace SSpace False [] (shlex_quote t @ CHR '' '' # shlex_join (u # us))"
    by (simp add: shlex_split_def shlex_join_def)
  also have "\<dots> = emit t (shlex_split (shlex_join (u # us)))"
    using shlex_loop_quoted_token [of t "CHR '' '' # shlex_join (u # us)"]
    by (simp add: shlex_split_def)
  finally show ?case using 3 by (simp add: emit_def)
qed

lemma tokenize_join: "tokenize (shlex_join tokens) = tokens"
  by (simp add: tokenize_def shlex_split_join)

section \<open>The post-processing of the minimal generator\<close>

lemma replace_loop_plain:
  "\<not> is_input_designator t \<Longrightarrow> replace_loop f a (t # ts) = t # replace_loop f a ts"
  by (cases ts) simp_all

lemma replace_loop_plain_prefix:
  "\<forall>t\<in>set A. \<not> is_input_designator t \<Longrightarrow> replace_loop f a (A @ ts) = A @ replace_loop f a ts"
  by (induction A) (simp_all add: replace_loop_plain)

lemma replace_loop_no_designator:
  "\<forall>t\<in>set C. \<not> is_input_designator t \<Longrightarrow> replace_loop f a C = C"
  using replace_loop_plain_prefix [of C f a "[]"] by simp

text \<open>
  Claim C4, as amended. An input designator is a token that is \<open>-i\<close> in lower case. Let the
  tokens of the command hold two designators, each followed by a token, and no other
  designator: they are \<open>A\<close>, the first designator \<open>d1\<close> and its argument \<open>x\<close>, \<open>B\<close>, the second
  designator \<open>d2\<close> and its argument \<open>y\<close>, \<open>C\<close>. Then \<open>replace_placeholder_with_file\<close> returns
  the shell-quoted join of \<open>A\<close>, \<open>d1\<close>, the actual file, \<open>B\<close>, \<open>C\<close>, and these are the tokens
  of the returned command: the actual file follows \<open>d1\<close>, the second designator and its
  argument are gone, and every other token is kept in its place. If the actual file is not
  itself an input designator, the returned command holds exactly one designator, \<open>d1\<close>.
\<close>

theorem replace_placeholder_two_inputs:
  assumes "tokenize command = A @ [d1, x] @ B @ [d2, y] @ C"
      and "is_input_designator d1" and "is_input_designator d2"
      and "\<forall>t\<in>set (A @ B @ C). \<not> is_input_designator t"
  shows "replace_placeholder_with_file command actual_file
           = shlex_join (A @ [d1, actual_file] @ B @ C)
         \<and> tokenize (replace_placeholder_with_file command actual_file)
           = A @ [d1, actual_file] @ B @ C
         \<and> (\<not> is_input_designator actual_file
              \<longrightarrow> filter is_input_designator
                    (tokenize (replace_placeholder_with_file command actual_file)) = [d1])"
proof -
  have A: "\<forall>t\<in>set A. \<not> is_input_designator t" and B: "\<forall>t\<in>set B. \<not> is_input_designator t"
    and C: "\<forall>t\<in>set C. \<not> is_input_designator t" using assms(4) by auto
  have one: "\<not> is_input_designator actual_file
      \<Longrightarrow> filter is_input_designator (A @ [d1, actual_file] @ B @ C) = [d1]"
    using A B C assms(2) by (simp add: filter_empty_conv)
  have "replace_loop False actual_file (A @ d1 # x # (B @ d2 # y # C))
      = A @ replace_loop False actual_file (d1 # x # (B @ d2 # y # C))"
    by (rule replace_loop_plain_prefix [OF A])
  also have "\<dots> = A @ d1 # actual_file # replace_loop True actual_file (B @ d2 # y # C)"
    using assms(2) by simp
  also have "\<dots> = A @ d1 # actual_file # B @ replace_loop True actual_file (d2 # y # C)"
    by (simp add: replace_loop_plain_prefix [OF B])
  also have "\<dots> = A @ d1 # actual_file # B @ replace_loop True actual_file C"
    using assms(3) by simp
  also have "\<dots> = A @ d1 # actual_file # B @ C"
    by (simp add: replace_loop_no_designator [OF C])
  finally have "replace_loop False actual_file (tokenize command) = A @ [d1, actual_file] @ B @ C"
    using assms(1) by simp
  then show ?thesis using one by (simp add: replace_placeholder_with_file_def tokenize_join)
qed

lemma two_inputs_tokens:
  "tokenize ''ffmpeg -i in.mp4 -i b.mp4 -c copy out.mp4''
     = [''ffmpeg''] @ [''-i'', ''in.mp4''] @ [] @ [''-i'', ''b.mp4''] @ [''-c'', ''copy'', ''out.mp4'']"
  by code_simp

lemma two_inputs_designators:
  "is_input_designator ''-i''"
  "\<forall>t\<in>set ([''ffmpeg''] @ [] @ [''-c'', ''copy'', ''out.mp4'']). \<not> is_input_designator t"
  by code_simp+

text \<open>The theorem at a command with two inputs and a file name with a space.\<close>

theorem replace_placeholder_two_inputs_witness:
  "tokenize ''ffmpeg -i in.mp4 -i b.mp4 -c copy out.mp4''
     = [''ffmpeg''] @ [''-i'', ''in.mp4''] @ [] @ [''-i'', ''b.mp4''] @ [''-c'', ''copy'', ''out.mp4'']
   \<and> is_input_designator ''-i''
   \<and> \<not> is_input_designator ''ffmpeg'' \<and> \<not> is_input_designator ''-c''
   \<and> \<not> is_input_designator ''copy'' \<and> \<not> is_input_designator ''out.mp4''
   \<and> \<not> is_input_designator ''my file.mov''
   \<and> tokenize (replace_placeholder_with_file ''ffmpeg -i in.mp4 -i b.mp4 -c copy out.mp4'' ''my file.mov'')
     = [''ffmpeg'', ''-i'', ''my file.mov'', ''-c'', ''copy'', ''out.mp4'']
   \<and> filter is_input_designator
       (tokenize (replace_placeholder_with_file ''ffmpeg -i in.mp4 -i b.mp4 -c copy out.mp4'' ''my file.mov''))
     = [''-i'']"
proof -
  have f: "\<not> is_input_designator ''my file.mov''" by code_simp
  show ?thesis
    using f two_inputs_tokens two_inputs_designators
      replace_placeholder_two_inputs [OF two_inputs_tokens two_inputs_designators(1)
        two_inputs_designators(1) two_inputs_designators(2), of "''my file.mov''"]
    by (simp add: tokenize_join)
qed

text \<open>
  Claim C4 as the specification words it fails when the supplied file is itself \<open>-i\<close>: the
  command has two designators, each followed by an argument, and the returned command has
  two designators again, the first one and the file put after it.
\<close>

theorem replace_placeholder_designator_file_counterexample:
  "tokenize ''ffmpeg -i in.mp4 -i b.mp4 -c copy out.mp4''
     = [''ffmpeg'', ''-i'', ''in.mp4'', ''-i'', ''b.mp4'', ''-c'', ''copy'', ''out.mp4'']
   \<and> tokenize (replace_placeholder_with_file ''ffmpeg -i in.mp4 -i b.mp4 -c copy out.mp4'' ''-i'')
     = [''ffmpeg'', ''-i'', ''-i'', ''-c'', ''copy'', ''out.mp4'']
   \<and> filter is_input_designator
       (tokenize (replace_placeholder_with_file ''ffmpeg -i in.mp4 -i b.mp4 -c copy out.mp4'' ''-i''))
     = [''-i'', ''-i'']"
  by code_simp

text \<open>
  Claim C8. A command of fewer than three tokens is returned unmodified. For a command of
  three or more tokens, the result is the shell-quoted join of the same tokens with the
  last one replaced by the new output name, and these are the tokens of the result: only
  the last token changes. The new output name is the base name of the input file without
  its extension, \<open>_toasted\<close>, and an extension: the desired extension if one is given (and
  is not empty), else the extension of the input file if, in lower case, it is among the
  image extensions, else the extension of the last token.
\<close>

theorem update_output_filename_last_token:
  "(length (tokenize command) < 3
      \<longrightarrow> update_output_filename exts command input_file desired_ext = command)
   \<and> (3 \<le> length (tokenize command) \<and> tokenize command = others @ [output_token]
      \<longrightarrow> update_output_filename exts command input_file desired_ext
            = shlex_join (others @ [new_output_name exts output_token input_file desired_ext])
          \<and> tokenize (update_output_filename exts command input_file desired_ext)
            = others @ [new_output_name exts output_token input_file desired_ext])"
proof (intro conjI impI)
  assume "length (tokenize command) < 3"
  then show "update_output_filename exts command input_file desired_ext = command"
    by (simp add: update_output_filename_def)
next
  assume h: "3 \<le> length (tokenize command) \<and> tokenize command = others @ [output_token]"
  then have l: "3 \<le> length (tokenize command)"
    and e: "tokenize command = others @ [output_token]" by blast+
  have n: "\<not> length (tokenize command) < 3" using l by simp
  have b: "butlast (tokenize command) = others" "last (tokenize command) = output_token"
    using e by simp_all
  show r: "update_output_filename exts command input_file desired_ext
        = shlex_join (others @ [new_output_name exts output_token input_file desired_ext])"
    using n b unfolding update_output_filename_def new_output_name_def Let_def
    by (cases desired_ext) simp_all
  show "tokenize (update_output_filename exts command input_file desired_ext)
        = others @ [new_output_name exts output_token input_file desired_ext]"
    by (simp only: r tokenize_join)
qed

lemma update_examples:
  "tokenize ''ffmpeg -version'' = [''ffmpeg'', ''-version'']"
  "tokenize ''ffmpeg -i in.mp4 out.mp4'' = [''ffmpeg'', ''-i'', ''in.mp4''] @ [''out.mp4'']"
  "new_output_name {''.png'', ''.jpg''} ''out.mp4'' ''/photos/pic.PNG'' None = ''pic_toasted.PNG''"
  "new_output_name {''.png'', ''.jpg''} ''out.mp4'' ''/videos/clip.mov'' None = ''clip_toasted.mp4''"
  "new_output_name {''.png'', ''.jpg''} ''out.mp4'' ''/videos/clip.mov'' (Some ''.webm'') = ''clip_toasted.webm''"
  by code_simp+

text \<open>
  The theorem at a command of two tokens, and at one of four tokens with an image as
  input, with a video as input, and with a desired extension.
\<close>

theorem update_output_filename_last_token_witness:
  "length (tokenize ''ffmpeg -version'') < 3
   \<and> update_output_filename {''.png'', ''.jpg''} ''ffmpeg -version'' ''/photos/pic.PNG'' None
       = ''ffmpeg -version''
   \<and> 3 \<le> length (tokenize ''ffmpeg -i in.mp4 out.mp4'')
   \<and> tokenize ''ffmpeg -i in.mp4 out.mp4'' = [''ffmpeg'', ''-i'', ''in.mp4''] @ [''out.mp4'']
   \<and> tokenize (update_output_filename {''.png'', ''.jpg''} ''ffmpeg -i in.mp4 out.mp4'' ''/photos/pic.PNG'' None)
       = [''ffmpeg'', ''-i'', ''in.mp4'', ''pic_toasted.PNG'']
   \<and> tokenize (update_output_filename {''.png'', ''.jpg''} ''ffmpeg -i in.mp4 out.mp4'' ''/videos/clip.mov'' None)
       = [''ffmpeg'', ''-i'', ''in.mp4'', ''clip_toasted.mp4'']
   \<and> tokenize (update_output_filename {''.png'', ''.jpg''} ''ffmpeg -i in.mp4 out.mp4'' ''/videos/clip.mov'' (Some ''.webm''))
       = [''ffmpeg'', ''-i'', ''in.mp4'', ''clip_toasted.webm'']"
  using update_examples
    update_output_filename_last_token [where command = "''ffmpeg -version''" and others = "[]"
      and output_token = "[]" and exts = "{''.png'', ''.jpg''}" and input_file = "''/photos/pic.PNG''"
      and desired_ext = "None"]
    update_output_filename_last_token [where command = "''ffmpeg -i in.mp4 out.mp4''" and others = "[''ffmpeg'', ''-i'', ''in.mp4'']"
      and output_token = "''out.mp4''" and exts = "{''.png'', ''.jpg''}" and input_file = "''/photos/pic.PNG''"
      and desired_ext = "None"]
    update_output_filename_last_token [where command = "''ffmpeg -i in.mp4 out.mp4''" and others = "[''ffmpeg'', ''-i'', ''in.mp4'']"
      and output_token = "''out.mp4''" and exts = "{''.png'', ''.jpg''}" and input_file = "''/videos/clip.mov''"
      and desired_ext = "None"]
    update_output_filename_last_token [where command = "''ffmpeg -i in.mp4 out.mp4''" and others = "[''ffmpeg'', ''-i'', ''in.mp4'']"
      and output_token = "''out.mp4''" and exts = "{''.png'', ''.jpg''}" and input_file = "''/videos/clip.mov''"
      and desired_ext = "Some ''.webm''"]
  by (simp add: tokenize_join)


section \<open>The context-aware generator\<close>

lemma keys_format_kwargs: "map fst (format_kwargs relpath ctx) = template_fields"
  by (simp add: format_kwargs_def template_fields_def)

lemma format_template_total:
  "set (placeholders template) \<subseteq> fst ` set kwargs \<Longrightarrow> \<exists>s. format_template kwargs template = Inr s"
proof (induction template rule: placeholders.induct)
  case 1 then show ?case by simp
next
  case (2 s ps) then show ?case by auto
next
  case (3 name ps)
  then obtain s where s: "format_template kwargs ps = Inr s" by auto
  from 3 have "name \<in> fst ` set kwargs" by simp
  then obtain v where "map_of kwargs name = Some v"
    by (metis domIff dom_map_of_conv_image_fst not_Some_eq)
  with s show ?case by simp
qed

text \<open>
  Claim C1 does not hold of the code. \<open>_prepare_llm_messages\<close> reads every context field
  with \<open>system_context.get(key, default)\<close>, so a missing field is replaced by its default
  (\<open>Unknown\<close>, \<open>ffmpeg\<close>, \<open>.\<close>) and no \<open>KeyError\<close> can come from the context. For every
  context, also one with fields missing, and every template whose placeholders are among
  the seven that are passed, \<open>generate_command\<close> raises no configuration error: it calls
  the model, once, and returns or raises what that call does.
\<close>

theorem generate_command_defaults_missing_fields:
  "set (placeholders template) \<subseteq> set template_fields
   \<longrightarrow> (\<exists>messages. generate_command relpath template llm history ctx
         = \<lparr>returned = call_llm_api llm messages, llm_calls = [messages]\<rparr>)"
proof
  assume "set (placeholders template) \<subseteq> set template_fields"
  then have "set (placeholders template) \<subseteq> fst ` set (format_kwargs relpath ctx)"
    using keys_format_kwargs [of relpath ctx] by (metis set_map)
  then obtain s where "format_template (format_kwargs relpath ctx) template = Inr s"
    using format_template_total by blast
  then show "\<exists>messages. generate_command relpath template llm history ctx
         = \<lparr>returned = call_llm_api llm messages, llm_calls = [messages]\<rparr>"
    by (simp add: generate_command_def prepare_llm_messages_def)
qed

lemma example_template_fields: "set (placeholders example_template) \<subseteq> set template_fields"
  by code_simp

lemma example_generation:
  "returned (generate_command no_relpath example_template example_llm example_history empty_context)
     = Inr ''{}''"
  "length (llm_calls (generate_command no_relpath example_template example_llm example_history
     empty_context)) = 1"
  by code_simp+

text \<open>
  The theorem at the empty context: every field is missing, the model is called and its
  answer is returned.
\<close>

theorem generate_command_defaults_missing_fields_witness:
  "set (placeholders example_template) \<subseteq> set template_fields
   \<and> (\<exists>messages. generate_command no_relpath example_template example_llm example_history empty_context
         = \<lparr>returned = call_llm_api example_llm messages, llm_calls = [messages]\<rparr>)
   \<and> returned (generate_command no_relpath example_template example_llm example_history empty_context)
       = Inr ''{}''
   \<and> length (llm_calls (generate_command no_relpath example_template example_llm example_history
         empty_context)) = 1"
  using example_template_fields example_generation
    generate_command_defaults_missing_fields [of example_template no_relpath example_llm
      example_history empty_context]
  by blast

text \<open>
  The error the claim describes is raised for the template, not for the context: a
  placeholder that is not among the seven keyword arguments raises \<open>ValueError\<close>, naming the
  placeholder, before the model is called.
\<close>

lemma format_template_error:
  "format_template kwargs template = Inl e \<Longrightarrow>
     \<exists>k. e = KeyError k \<and> k \<in> set (placeholders template) \<and> map_of kwargs k = None"
proof (induction template rule: placeholders.induct)
  case 1 then show ?case by simp
next
  case (2 s ps)
  then show ?case by (cases "format_template kwargs ps") auto
next
  case (3 name ps)
  show ?case
  proof (cases "map_of kwargs name")
    case None
    with 3 show ?thesis by auto
  next
    case (Some v)
    with 3 show ?thesis by (cases "format_template kwargs ps") auto
  qed
qed

lemma generate_command_configuration_error:
  assumes "returned (generate_command relpath template llm history ctx) = Inl e"
      and "llm_calls (generate_command relpath template llm history ctx) = []"
  shows "\<exists>k. e = ValueError (''System context dictionary is missing required key: '' @ in_quotes k)
           \<and> k \<in> set (placeholders template) \<and> k \<notin> set template_fields"
proof (cases "format_template (format_kwargs relpath ctx) template")
  case (Inl err)
  then obtain k where k: "err = KeyError k" "k \<in> set (placeholders template)"
      "map_of (format_kwargs relpath ctx) k = None"
    using format_template_error by blast
  have "k \<notin> fst ` set (format_kwargs relpath ctx)"
    using k(3) by (metis domIff dom_map_of_conv_image_fst)
  then have "k \<notin> set template_fields"
    using keys_format_kwargs [of relpath ctx] by (metis set_map)
  with assms(1) Inl k(1,2) show ?thesis
    by (auto simp: generate_command_def prepare_llm_messages_def)
next
  case (Inr str)
  with assms(2) show ?thesis
    by (simp add: generate_command_def prepare_llm_messages_def)
qed


section \<open>Quote repair\<close>

lemma quotes_not_space: "\<not> is_space dquote" "\<not> is_space squote"
  by (simp_all add: is_space_def in_range_def dquote_def squote_def)

lemma takeWhile_all: "\<forall>x\<in>set xs. P x \<Longrightarrow> \<not> P y \<Longrightarrow> takeWhile P (xs @ y # ys) = xs"
  by (induction xs) auto

lemma dropWhile_all: "\<forall>x\<in>set xs. P x \<Longrightarrow> \<not> P y \<Longrightarrow> dropWhile P (xs @ y # ys) = y # ys"
  by (induction xs) auto

lemma match_vf_here_complete:
  assumes "ws \<noteq> []" and "\<forall>c\<in>set ws. is_space c" and "q = dquote \<or> q = squote"
      and "q \<notin> set v" and "newline \<notin> set v"
  shows "match_vf_here (''-vf'' @ ws @ [q] @ v @ [q] @ r) = Some (ws, q, v, r)"
proof -
  have nq: "\<not> is_space q" using assms(3) quotes_not_space by auto
  have t: "takeWhile is_space (ws @ q # v @ q # r) = ws"
    by (rule takeWhile_all [OF assms(2) nq])
  have d: "dropWhile is_space (ws @ q # v @ q # r) = q # v @ q # r"
    by (rule dropWhile_all [OF assms(2) nq])
  have v: "\<forall>c\<in>set v. c \<noteq> q \<and> c \<noteq> newline" using assms(4,5) by auto
  have t2: "takeWhile (\<lambda>c. c \<noteq> q \<and> c \<noteq> newline) (v @ q # r) = v"
    by (rule takeWhile_all [OF v]) simp
  have d2: "dropWhile (\<lambda>c. c \<noteq> q \<and> c \<noteq> newline) (v @ q # r) = q # r"
    by (rule dropWhile_all [OF v]) simp
  show ?thesis using assms(1,3) t d t2 d2 by (auto simp: match_vf_here_def)
qed

lemma match_vf_here_sound:
  assumes "match_vf_here s = Some (ws, q, v, r)"
  shows "s = ''-vf'' @ ws @ [q] @ v @ [q] @ r \<and> ws \<noteq> [] \<and> (\<forall>c\<in>set ws. is_space c)
         \<and> (q = dquote \<or> q = squote) \<and> q \<notin> set v \<and> newline \<notin> set v"
proof -
  from assms have p: "prefix ''-vf'' s" by (auto simp: match_vf_here_def split: if_splits)
  then have s: "s = ''-vf'' @ drop 3 s" by (auto simp: prefix_def)
  let ?t = "drop 3 s"
  from assms p have ws: "ws = takeWhile is_space ?t" "ws \<noteq> []"
    by (auto simp: match_vf_here_def Let_def split: if_splits list.splits)
  from assms p obtain v' where d: "dropWhile is_space ?t = q # v'" and q: "q = dquote \<or> q = squote"
    by (auto simp: match_vf_here_def Let_def split: if_splits list.splits)
  from assms p d have v: "v = takeWhile (\<lambda>c. c \<noteq> q \<and> c \<noteq> newline) v'"
      and r: "dropWhile (\<lambda>c. c \<noteq> q \<and> c \<noteq> newline) v' = q # r"
    by (auto simp: match_vf_here_def Let_def split: if_splits list.splits)
  have "?t = ws @ q # v'" using ws(1) d takeWhile_dropWhile_id [of is_space ?t] by simp
  moreover have "v' = v @ q # r"
    using v r takeWhile_dropWhile_id [of "\<lambda>c. c \<noteq> q \<and> c \<noteq> newline" v'] by simp
  ultimately have "s = ''-vf'' @ ws @ [q] @ v @ [q] @ r" using s by simp
  moreover have "\<forall>c\<in>set ws. is_space c" using ws(1) by (auto dest: set_takeWhileD)
  moreover have "q \<notin> set v" "newline \<notin> set v" using v by (auto dest: set_takeWhileD)
  ultimately show ?thesis using ws(2) q by blast
qed

lemma search_vf_sound:
  "search_vf s = Some (b, m) \<Longrightarrow>
     s = b @ drop (length b) s \<and> match_vf_here (drop (length b) s) = Some m
     \<and> (\<forall>i<length b. match_vf_here (drop i s) = None)"
proof (induction s arbitrary: b)
  case Nil then show ?case by simp
next
  case (Cons c cs)
  show ?case
  proof (cases "match_vf_here (c # cs)")
    case (Some m')
    with Cons.prems show ?thesis by simp
  next
    case None
    with Cons.prems obtain b' where b: "b = c # b'" and s: "search_vf cs = Some (b', m)"
      by auto
    have ih: "cs = b' @ drop (length b') cs" "match_vf_here (drop (length b') cs) = Some m"
        "\<forall>i<length b'. match_vf_here (drop i cs) = None"
      using Cons.IH [OF s] by simp_all
    have "\<forall>i<length b. match_vf_here (drop i (c # cs)) = None"
    proof (intro allI impI)
      fix i assume "i < length b"
      then show "match_vf_here (drop i (c # cs)) = None"
        using None ih(3) b by (cases i) auto
    qed
    then show ?thesis using b ih(1,2) by simp
  qed
qed

lemma match_vf_here_Nil: "match_vf_here [] = None"
  by (simp add: match_vf_here_def)

lemma search_vf_leftmost:
  "match_vf_here (drop i s) = Some m \<Longrightarrow> \<exists>b m'. search_vf s = Some (b, m') \<and> length b \<le> i"
proof (induction s arbitrary: i)
  case Nil then show ?case by (simp add: match_vf_here_Nil)
next
  case (Cons c cs)
  show ?case
  proof (cases "match_vf_here (c # cs)")
    case (Some m')
    then show ?thesis by (intro exI [of _ "[]"] exI [of _ m']) simp
  next
    case None
    with Cons.prems obtain j where i: "i = Suc j" by (cases i) auto
    with Cons.prems have "match_vf_here (drop j cs) = Some m" by simp
    then obtain b m' where "search_vf cs = Some (b, m')" "length b \<le> j"
      using Cons.IH by blast
    with None i show ?thesis by (intro exI [of _ "c # b"] exI [of _ m']) simp
  qed
qed

lemma search_vf_None:
  "search_vf s = None \<Longrightarrow> match_vf_here (drop i s) = None"
  using search_vf_leftmost [of i s] by (cases "match_vf_here (drop i s)") auto

lemma quoted_vf_at_match:
  "quoted_vf_at command before ws q filters after
     \<longleftrightarrow> (command = before @ drop (length before) command
          \<and> match_vf_here (drop (length before) command) = Some (ws, q, filters, after))"
proof
  assume h: "quoted_vf_at command before ws q filters after"
  then have c: "command = before @ ''-vf'' @ ws @ [q] @ filters @ [q] @ after"
    by (simp add: quoted_vf_at_def)
  then have d: "drop (length before) command = ''-vf'' @ ws @ [q] @ filters @ [q] @ after"
    by simp
  have "match_vf_here (''-vf'' @ ws @ [q] @ filters @ [q] @ after) = Some (ws, q, filters, after)"
    using h by (intro match_vf_here_complete) (simp_all add: quoted_vf_at_def)
  then show "command = before @ drop (length before) command
          \<and> match_vf_here (drop (length before) command) = Some (ws, q, filters, after)"
    using c d by simp
next
  assume h: "command = before @ drop (length before) command
          \<and> match_vf_here (drop (length before) command) = Some (ws, q, filters, after)"
  then show "quoted_vf_at command before ws q filters after"
    using match_vf_here_sound [of "drop (length before) command" ws q filters after]
    unfolding quoted_vf_at_def by metis
qed

lemma search_vf_first:
  assumes "quoted_vf_at command before ws q filters after"
      and "\<And>b' ws' q' v' a'. quoted_vf_at command b' ws' q' v' a' \<Longrightarrow> length before \<le> length b'"
  shows "search_vf command = Some (before, ws, q, filters, after)"
proof -
  have m: "match_vf_here (drop (length before) command) = Some (ws, q, filters, after)"
    and c: "command = before @ drop (length before) command"
    using assms(1) quoted_vf_at_match by blast+
  obtain b m' where s: "search_vf command = Some (b, m')" and le: "length b \<le> length before"
    using search_vf_leftmost [OF m] by blast
  obtain ws' q' v' a' where m': "m' = (ws', q', v', a')" by (cases m') auto
  have snd: "command = b @ drop (length b) command"
      "match_vf_here (drop (length b) command) = Some (ws', q', v', a')"
    using search_vf_sound [OF s] m' by simp_all
  then have "quoted_vf_at command b ws' q' v' a'" using quoted_vf_at_match by blast
  then have "length before \<le> length b" by (rule assms(2))
  with le have l: "length b = length before" by simp
  then have "b = before" using c snd(1) by (metis append_eq_append_conv)
  with s m snd(2) m' show ?thesis by simp
qed

lemma search_vf_none_iff:
  "search_vf command = None \<longleftrightarrow> (\<forall>b ws q v a. \<not> quoted_vf_at command b ws q v a)"
proof
  assume n: "search_vf command = None"
  show "\<forall>b ws q v a. \<not> quoted_vf_at command b ws q v a"
    using search_vf_None [OF n] quoted_vf_at_match by (metis option.distinct(1))
next
  assume a: "\<forall>b ws q v a. \<not> quoted_vf_at command b ws q v a"
  show "search_vf command = None"
  proof (cases "search_vf command")
    case None then show ?thesis .
  next
    case (Some x)
    obtain b ws q v r where x: "x = (b, ws, q, v, r)" by (cases x) auto
    have "quoted_vf_at command b ws q v r"
      using search_vf_sound [of command b "(ws, q, v, r)"] Some x quoted_vf_at_match by simp
    with a show ?thesis by blast
  qed
qed

lemma then_append_Inr: "then_append (Inr x) (Inr y) = Inr (x @ y)"
  by (simp add: then_append_def)

lemma expand_template_plain:
  "backslash \<notin> set t \<Longrightarrow> expand_template groups t = Inr t"
proof (induction t rule: induct_list012)
  case 1 then show ?case by simp
next
  case (2 x) then show ?case by auto
next
  case (3 x y zs)
  then have x: "x \<noteq> backslash" and r: "expand_template groups (y # zs) = Inr (y # zs)" by auto
  show ?case by (simp only: expand_template.simps x r then_append_Inr not_False_eq_True if_True) simp
qed

lemma match_scale_here_parts:
  assumes "match_scale_here s = Some (inner, rest)"
  shows "set inner \<subseteq> set s \<and> set rest \<subseteq> set s"
proof -
  from assms obtain e u where eu: "dropWhile is_space (drop 5 s) = e # u"
    by (auto simp: match_scale_here_def split: if_splits list.splits)
  from assms eu obtain p w where pw: "drop 3 (dropWhile is_space u) = p # w"
    by (auto simp: match_scale_here_def Let_def split: if_splits list.splits)
  from assms eu pw obtain close where cl: "dropWhile (\<lambda>c. c \<noteq> CHR '')'') w = close # rest"
      and inner: "inner = takeWhile (\<lambda>c. c \<noteq> CHR '')'') w"
    by (auto simp: match_scale_here_def Let_def split: if_splits list.splits)
  have "set u \<subseteq> set s"
    using eu set_dropWhileD [of _ is_space "drop 5 s"] in_set_dropD [of _ 5 s] by fastforce
  moreover have "set w \<subseteq> set u"
    using pw set_dropWhileD [of _ is_space u] in_set_dropD [of _ 3 "dropWhile is_space u"]
    by fastforce
  moreover have "set inner \<subseteq> set w" using inner by (auto dest: set_takeWhileD)
  moreover have "set rest \<subseteq> set w"
    using cl set_dropWhileD [of _ "\<lambda>c. c \<noteq> CHR '')''" w] by fastforce
  ultimately show ?thesis by blast
qed

lemma sub_scale_no_backslash:
  "backslash \<notin> set v \<Longrightarrow> backslash \<notin> set (sub_scale v)"
proof (induction v rule: sub_scale.induct)
  case 1 then show ?case by simp
next
  case (2 c cs)
  show ?case
  proof (cases "match_scale_here (c # cs)")
    case None
    with 2 show ?thesis by simp
  next
    case (Some m)
    obtain inner rest where m: "m = (inner, rest)" by (cases m) auto
    have p: "set inner \<subseteq> set (c # cs)" "set rest \<subseteq> set (c # cs)"
      using match_scale_here_parts Some m by blast+
    then have "backslash \<notin> set inner" "backslash \<notin> set rest" using "2.prems" by auto
    then show ?thesis using 2 Some m
      by (simp add: backslash_def squote_def)
  qed
qed

lemma py_lower_append: "py_lower (a @ b) = py_lower a @ py_lower b"
  by (simp add: py_lower_def)

lemma no_scale_no_match:
  assumes "\<not> py_contains ''scale'' (py_lower s)"
  shows "match_scale_here (drop i s) = None"
proof (rule ccontr)
  assume "match_scale_here (drop i s) \<noteq> None"
  then have w: "py_lower (take 5 (drop i s)) = ''scale''"
    by (auto simp: match_scale_here_def split: if_splits)
  have "s = take i s @ take 5 (drop i s) @ drop 5 (drop i s)"
    by (simp only: append_take_drop_id)
  then have "py_lower s = py_lower (take i s) @ ''scale'' @ py_lower (drop 5 (drop i s))"
    using w by (metis py_lower_append)
  then have "py_contains ''scale'' (py_lower s)" unfolding py_contains_iff by blast
  with assms show False by simp
qed

lemma sub_scale_unchanged:
  "\<not> py_contains ''scale'' (py_lower s) \<Longrightarrow> sub_scale s = s"
proof (induction s)
  case Nil then show ?case by simp
next
  case (Cons c cs)
  have m: "match_scale_here (c # cs) = None"
    using no_scale_no_match [OF Cons.prems, of 0] by simp
  have "\<not> py_contains ''scale'' (py_lower cs)"
  proof
    assume "py_contains ''scale'' (py_lower cs)"
    then obtain a b where "py_lower cs = a @ ''scale'' @ b" unfolding py_contains_iff by blast
    then have "py_lower (c # cs) = (lower_char c # a) @ ''scale'' @ b" by (simp add: py_lower_def)
    then have "py_contains ''scale'' (py_lower (c # cs))" unfolding py_contains_iff by blast
    with Cons.prems show False by simp
  qed
  then show ?case using Cons.IH m by simp
qed

lemma match_scale_here_literal:
  assumes "inner \<noteq> []" and "CHR '')'' \<notin> set inner"
  shows "match_scale_here (''scale=min('' @ inner @ '')'' @ f2) = Some (inner, f2)"
proof -
  have l: "py_lower ''scale'' = ''scale''" "py_lower ''min'' = ''min''" by code_simp+
  have e: "\<not> is_space (CHR ''='')" "\<not> is_space (CHR ''m'')" by code_simp+
  have i: "\<forall>c\<in>set inner. c \<noteq> CHR '')''" using assms(2) by auto
  have t: "takeWhile (\<lambda>c. c \<noteq> CHR '')'') (inner @ CHR '')'' # f2) = inner"
    by (rule takeWhile_all [OF i]) simp
  have d: "dropWhile (\<lambda>c. c \<noteq> CHR '')'') (inner @ CHR '')'' # f2) = CHR '')'' # f2"
    by (rule dropWhile_all [OF i]) simp
  show ?thesis using assms(1) l e t d by (simp add: match_scale_here_def)
qed

lemma no_match_before_literal:
  assumes "\<not> py_contains ''scale'' (py_lower f1)" and "i < length f1"
  shows "match_scale_here (drop i (f1 @ ''scale=min('' @ rest)) = None"
proof (rule ccontr)
  assume "match_scale_here (drop i (f1 @ ''scale=min('' @ rest)) \<noteq> None"
  then have w: "py_lower (take 5 (drop i (f1 @ ''scale=min('' @ rest))) = ''scale''"
    by (auto simp: match_scale_here_def split: if_splits)
  let ?k = "length f1 - i"
  have d: "drop i (f1 @ ''scale=min('' @ rest) = drop i f1 @ ''scale=min('' @ rest"
    using assms(2) by simp
  have lk: "length (drop i f1) = ?k" by simp
  show False
  proof (cases "5 \<le> ?k")
    case True
    then have "take 5 (drop i f1 @ ''scale=min('' @ rest) = take 5 (drop i f1)"
      by simp
    moreover from w have "py_lower (take 5 (drop i f1 @ ''scale=min('' @ rest)) = ''scale''"
      by (simp only: d)
    ultimately have w': "py_lower (take 5 (drop i f1)) = ''scale''" by simp
    have "f1 = take i f1 @ take 5 (drop i f1) @ drop 5 (drop i f1)"
      by (simp only: append_take_drop_id)
    then have "py_lower f1 = py_lower (take i f1) @ ''scale'' @ py_lower (drop 5 (drop i f1))"
      using w' by (metis py_lower_append)
    then have "py_contains ''scale'' (py_lower f1)" unfolding py_contains_iff by blast
    with assms(1) show False by simp
  next
    case False
    then have k: "?k < 5" "0 < ?k" using assms(2) by simp_all
    let ?X = "drop i f1 @ ''scale=min('' @ rest"
    have len: "?k < length (take 5 ?X)" using k lk by simp
    have "py_lower (take 5 ?X) ! ?k = lower_char (take 5 ?X ! ?k)"
      unfolding py_lower_def using len by (rule nth_map)
    also have "take 5 ?X ! ?k = ?X ! ?k" using k(1) by (rule nth_take)
    also have "?X ! ?k = CHR ''s''"
      using lk by (simp add: nth_append)
    also have "lower_char (CHR ''s'') = CHR ''s''" by code_simp
    finally have "py_lower (take 5 (drop i f1 @ ''scale=min('' @ rest)) ! ?k = CHR ''s''" .
    moreover from w have "py_lower (take 5 (drop i f1 @ ''scale=min('' @ rest)) = ''scale''"
      by (simp only: d)
    ultimately have "''scale'' ! ?k = CHR ''s''" by simp
    moreover have "?k = 1 \<or> ?k = 2 \<or> ?k = 3 \<or> ?k = 4" using k by linarith
    ultimately show False by auto
  qed
qed

lemma sub_scale_prefix:
  assumes "\<not> py_contains ''scale'' (py_lower f1)"
  shows "sub_scale (f1 @ ''scale=min('' @ rest) = f1 @ sub_scale (''scale=min('' @ rest)"
  using assms
proof (induction f1)
  case Nil then show ?case by simp
next
  case (Cons c f1)
  have m: "match_scale_here ((c # f1) @ ''scale=min('' @ rest) = None"
    using no_match_before_literal [OF Cons.prems, of 0 rest] by simp
  have "\<not> py_contains ''scale'' (py_lower f1)"
  proof
    assume "py_contains ''scale'' (py_lower f1)"
    then obtain a b where "py_lower f1 = a @ ''scale'' @ b" unfolding py_contains_iff by blast
    then have "py_lower (c # f1) = (lower_char c # a) @ ''scale'' @ b" by (simp add: py_lower_def)
    then have "py_contains ''scale'' (py_lower (c # f1))" unfolding py_contains_iff by blast
    with Cons.prems show False by simp
  qed
  then have "sub_scale (f1 @ ''scale=min('' @ rest) = f1 @ sub_scale (''scale=min('' @ rest)"
    by (rule Cons.IH)
  then show ?case using m by simp
qed

lemma sub_scale_single:
  assumes "inner \<noteq> []" and "CHR '')'' \<notin> set inner"
      and "\<not> py_contains ''scale'' (py_lower f1)" and "\<not> py_contains ''scale'' (py_lower f2)"
  shows "sub_scale (f1 @ ''scale=min('' @ inner @ '')'' @ f2)
           = f1 @ ''scale='' @ [squote] @ ''min('' @ inner @ '')'' @ [squote] @ f2"
proof -
  have "sub_scale (f1 @ ''scale=min('' @ inner @ '')'' @ f2)
      = f1 @ sub_scale (''scale=min('' @ inner @ '')'' @ f2)"
    by (rule sub_scale_prefix [OF assms(3)])
  moreover have "sub_scale (''scale=min('' @ inner @ '')'' @ f2)
      = ''scale='' @ [squote] @ ''min('' @ inner @ '')'' @ [squote] @ sub_scale f2"
    using match_scale_here_literal [OF assms(1,2), of f2] by simp
  ultimately show ?thesis using sub_scale_unchanged [OF assms(4)] by simp
qed

lemma fix_command_quotes_found:
  assumes "search_vf command = Some (before, ws, q, filters, after)"
      and "\<forall>c\<in>set ws. is_space c" and "backslash \<notin> set filters"
  shows "fix_command_quotes command
           = Inr (before @ ''-vf'' @ ws @ [dquote] @ filter (\<lambda>c. c \<noteq> dquote) (sub_scale filters)
                  @ [dquote] @ after)"
proof -
  have "\<not> is_space backslash" by (simp add: is_space_def in_range_def backslash_def)
  then have w: "backslash \<notin> set ws" using assms(2) by blast
  have f: "backslash \<notin> set (filter (\<lambda>c. c \<noteq> dquote) (sub_scale filters))"
    using sub_scale_no_backslash [OF assms(3)] by simp
  have "backslash \<notin> set ((''-vf'' @ ws) @ [dquote] @ filter (\<lambda>c. c \<noteq> dquote) (sub_scale filters) @ [dquote])"
    using w f by (simp add: backslash_def dquote_def)
  then have "expand_template groups ((''-vf'' @ ws) @ [dquote] @ filter (\<lambda>c. c \<noteq> dquote) (sub_scale filters) @ [dquote])
      = Inr ((''-vf'' @ ws) @ [dquote] @ filter (\<lambda>c. c \<noteq> dquote) (sub_scale filters) @ [dquote])" for groups
    by (rule expand_template_plain)
  then show ?thesis using assms(1) by (simp add: fix_command_quotes_def Let_def)
qed

text \<open>
  Claim C5, as amended. A command with no quoted \<open>-vf\<close> argument is returned unchanged.
  Otherwise take the first quoted \<open>-vf\<close> argument of the command, and let its value hold no
  backslash. Then \<open>fix_command_quotes\<close> replaces that argument by \<open>-vf\<close>, the same
  whitespace, and, in double quotes, the value in which every \<open>scale=min(...)\<close> construct
  has been rewritten and from which every double quote has then been removed; the text
  before and after the argument, later \<open>-vf\<close> arguments included, is unchanged. In a value
  with one \<open>scale=min(X)\<close> construct, \<open>X\<close> not empty and without a closing parenthesis, and
  no other occurrence of \<open>scale\<close>, the rewriting puts single quotes around \<open>min(X)\<close> and
  changes nothing else.
\<close>

theorem fix_command_quotes_first_quoted_vf:
  "((\<forall>b ws q v a. \<not> quoted_vf_at command b ws q v a) \<longrightarrow> fix_command_quotes command = Inr command)
   \<and> (quoted_vf_at command before ws q filters after
        \<and> (\<forall>b' ws' q' v' a'. quoted_vf_at command b' ws' q' v' a' \<longrightarrow> length before \<le> length b')
        \<and> backslash \<notin> set filters
      \<longrightarrow> fix_command_quotes command
            = Inr (before @ ''-vf'' @ ws @ [dquote] @ filter (\<lambda>c. c \<noteq> dquote) (sub_scale filters)
                   @ [dquote] @ after))
   \<and> (inner \<noteq> [] \<and> CHR '')'' \<notin> set inner
        \<and> \<not> py_contains ''scale'' (py_lower f1) \<and> \<not> py_contains ''scale'' (py_lower f2)
      \<longrightarrow> sub_scale (f1 @ ''scale=min('' @ inner @ '')'' @ f2)
            = f1 @ ''scale='' @ [squote] @ ''min('' @ inner @ '')'' @ [squote] @ f2)"
proof (intro conjI impI)
  assume "\<forall>b ws q v a. \<not> quoted_vf_at command b ws q v a"
  then have "search_vf command = None" using search_vf_none_iff by blast
  then show "fix_command_quotes command = Inr command" by (simp add: fix_command_quotes_def)
next
  assume h: "quoted_vf_at command before ws q filters after
        \<and> (\<forall>b' ws' q' v' a'. quoted_vf_at command b' ws' q' v' a' \<longrightarrow> length before \<le> length b')
        \<and> backslash \<notin> set filters"
  then have s: "search_vf command = Some (before, ws, q, filters, after)"
    by (intro search_vf_first) blast+
  have "\<forall>c\<in>set ws. is_space c" using h by (simp add: quoted_vf_at_def)
  then show "fix_command_quotes command
            = Inr (before @ ''-vf'' @ ws @ [dquote] @ filter (\<lambda>c. c \<noteq> dquote) (sub_scale filters)
                   @ [dquote] @ after)"
    using fix_command_quotes_found [OF s] h by blast
next
  assume "inner \<noteq> [] \<and> CHR '')'' \<notin> set inner
        \<and> \<not> py_contains ''scale'' (py_lower f1) \<and> \<not> py_contains ''scale'' (py_lower f2)"
  then show "sub_scale (f1 @ ''scale=min('' @ inner @ '')'' @ f2)
            = f1 @ ''scale='' @ [squote] @ ''min('' @ inner @ '')'' @ [squote] @ f2"
    using sub_scale_single by blast
qed

lemma search_vf_is_first:
  assumes "search_vf command = Some (before, ws, q, filters, after)"
  shows "quoted_vf_at command before ws q filters after"
    and "quoted_vf_at command b' ws' q' v' a' \<Longrightarrow> length before \<le> length b'"
proof -
  note s = search_vf_sound [OF assms]
  show "quoted_vf_at command before ws q filters after"
    using s quoted_vf_at_match by blast
  assume "quoted_vf_at command b' ws' q' v' a'"
  then have "match_vf_here (drop (length b') command) \<noteq> None"
    using quoted_vf_at_match by auto
  then show "length before \<le> length b'" using s by (meson not_le)
qed

lemma spec_example_search:
  "search_vf spec_example_command
     = Some (''ffmpeg -i input.mp4 '', '' '', dquote, ''scale=min(1280,iw):-2'', '' out.mp4'')"
  by code_simp

lemma unquoted_search: "search_vf ''ffmpeg -i a.mp4 -vf scale=min(1,2) b.mp4'' = None"
  by code_simp

lemma spec_example_no_scale:
  "\<not> py_contains ''scale'' (py_lower [])" "\<not> py_contains ''scale'' (py_lower '':-2'')"
  by code_simp+

text \<open>
  The theorem at the command of the specification's end-to-end example, whose filter value
  \<open>scale=min(1280,iw):-2\<close> becomes \<open>scale='min(1280,iw)':-2\<close>, and at a command whose filter
  is not quoted.
\<close>

theorem fix_command_quotes_first_quoted_vf_witness:
  "quoted_vf_at spec_example_command ''ffmpeg -i input.mp4 '' '' '' dquote ''scale=min(1280,iw):-2''
     '' out.mp4''
   \<and> backslash \<notin> set ''scale=min(1280,iw):-2''
   \<and> fix_command_quotes spec_example_command
       = Inr (''ffmpeg -i input.mp4 -vf '' @ [dquote] @ ''scale='' @ [squote] @ ''min(1280,iw)''
              @ [squote] @ '':-2'' @ [dquote] @ '' out.mp4'')
   \<and> fix_command_quotes ''ffmpeg -i a.mp4 -vf scale=min(1,2) b.mp4''
       = Inr ''ffmpeg -i a.mp4 -vf scale=min(1,2) b.mp4''"
proof -
  note t = fix_command_quotes_first_quoted_vf [where command = spec_example_command
      and before = "''ffmpeg -i input.mp4 ''" and ws = "'' ''" and q = dquote
      and filters = "''scale=min(1280,iw):-2''" and after = "'' out.mp4''"
      and inner = "''1280,iw''" and ?f1.0 = "[]" and ?f2.0 = "'':-2''"]
  note u = fix_command_quotes_first_quoted_vf [where command = "''ffmpeg -i a.mp4 -vf scale=min(1,2) b.mp4''"]
  have q: "quoted_vf_at spec_example_command ''ffmpeg -i input.mp4 '' '' '' dquote
      ''scale=min(1280,iw):-2'' '' out.mp4''"
    by (rule search_vf_is_first(1) [OF spec_example_search])
  have f: "\<forall>b' ws' q' v' a'. quoted_vf_at spec_example_command b' ws' q' v' a'
      \<longrightarrow> length ''ffmpeg -i input.mp4 '' \<le> length b'"
    using search_vf_is_first(2) [OF spec_example_search] by blast
  have b: "backslash \<notin> set ''scale=min(1280,iw):-2''" by (simp add: backslash_def)
  have n: "\<forall>b ws q v a. \<not> quoted_vf_at ''ffmpeg -i a.mp4 -vf scale=min(1,2) b.mp4'' b ws q v a"
    using unquoted_search search_vf_none_iff by blast
  have r: "fix_command_quotes spec_example_command
      = Inr (''ffmpeg -i input.mp4 '' @ ''-vf'' @ '' '' @ [dquote]
             @ filter (\<lambda>c. c \<noteq> dquote) (sub_scale ''scale=min(1280,iw):-2'') @ [dquote] @ '' out.mp4'')"
    using t q f b by blast
  have i: "''1280,iw'' \<noteq> [] \<and> CHR '')'' \<notin> set ''1280,iw''" by simp
  have "sub_scale ([] @ ''scale=min('' @ ''1280,iw'' @ '')'' @ '':-2'')
      = [] @ ''scale='' @ [squote] @ ''min('' @ ''1280,iw'' @ '')'' @ [squote] @ '':-2''"
    using t i spec_example_no_scale by blast
  then have s: "sub_scale ''scale=min(1280,iw):-2''
      = ''scale='' @ [squote] @ ''min(1280,iw)'' @ [squote] @ '':-2''" by simp
  have "fix_command_quotes ''ffmpeg -i a.mp4 -vf scale=min(1,2) b.mp4''
      = Inr ''ffmpeg -i a.mp4 -vf scale=min(1,2) b.mp4''"
    using u n by blast
  then show ?thesis using q b r s by (simp add: dquote_def squote_def)
qed

lemma two_filters_result:
  "fix_command_quotes two_filters_command
     = Inr (''ffmpeg -i in.mp4 -vf '' @ [dquote] @ ''fps=10'' @ [dquote] @ '' a.mp4 -vf ''
            @ [dquote] @ ''scale=min(1280,iw):-2'' @ [dquote] @ '' b.mp4'')"
  by code_simp

lemma two_filters_second:
  "two_filters_command
     = (''ffmpeg -i in.mp4 -vf '' @ [squote] @ ''fps=10'' @ [squote] @ '' a.mp4 '') @ ''-vf''
       @ '' '' @ [dquote] @ ''scale=min(1280,iw):-2'' @ [dquote] @ '' b.mp4''"
  by (simp add: two_filters_command_def)

text \<open>
  Claim C5 as stated fails on a command with two quoted \<open>-vf\<close> arguments of which the second
  holds the \<open>scale=min(...)\<close> construct: the function works on the first match of the \<open>-vf\<close>
  pattern, whatever its value, so the first value is re-wrapped in double quotes and the
  second, with its \<open>scale=min(1280,iw)\<close>, is left as it was.
\<close>

theorem fix_command_quotes_second_filter_counterexample:
  "quoted_vf_at two_filters_command
     (''ffmpeg -i in.mp4 -vf '' @ [squote] @ ''fps=10'' @ [squote] @ '' a.mp4 '') '' '' dquote
     ''scale=min(1280,iw):-2'' '' b.mp4''
   \<and> fix_command_quotes two_filters_command
       = Inr (''ffmpeg -i in.mp4 -vf '' @ [dquote] @ ''fps=10'' @ [dquote] @ '' a.mp4 -vf ''
              @ [dquote] @ ''scale=min(1280,iw):-2'' @ [dquote] @ '' b.mp4'')"
proof -
  have "quoted_vf_at two_filters_command
     (''ffmpeg -i in.mp4 -vf '' @ [squote] @ ''fps=10'' @ [squote] @ '' a.mp4 '') '' '' dquote
     ''scale=min(1280,iw):-2'' '' b.mp4''"
    unfolding quoted_vf_at_def using two_filters_second
    by (simp add: is_space_def in_range_def dquote_def newline_def)
  then show ?thesis using two_filters_result by simp
qed

text \<open>
  The group of the \<open>scale\<close> pattern ends at the first closing parenthesis, so with a call
  inside \<open>min(...)\<close> the single quotes close before the last parenthesis.
\<close>

lemma nested_parentheses_result:
  "fix_command_quotes nested_parentheses_command
     = Inr (''ffmpeg -i in.mp4 -vf '' @ [dquote] @ ''scale='' @ [squote] @ ''min(1280,max(iw,2)''
            @ [squote] @ ''):-2'' @ [dquote] @ '' out.mp4'')"
  by code_simp

text \<open>
  Outside the amended claim: a backslash in the filter value reaches the replacement
  template. A Windows path in the value makes \<open>re.sub\<close> raise \<open>bad escape \U\<close>, and
  \<open>fix_command_quotes\<close> with it.
\<close>

lemma windows_path_raises:
  "fix_command_quotes windows_path_command = Inl (ReError (''bad escape '' @ [backslash] @ ''U''))"
  by code_simp

end
